theory Spec2Isabelle
  imports Main "HOL-Library.Word"
begin

unbundle bit_operations_syntax

section \<open>Data model of the storage engine (shakti.go)\<close>

text \<open>
  A Go byte slice is a list of bytes or the nil slice: the code tests \<open>lastKey != nil\<close>,
  so nil is kept apart from the empty slice. \<open>uint64\<close> and \<open>int64\<close> are both
  \<open>64 word\<close>: the conversions \<open>uint64(x)\<close> and \<open>int64(x)\<close> keep the bits, and a
  signed comparison reads the word with \<open>sint\<close>.
\<close>

type_synonym byteslice = "8 word list option"

datatype error = Error string

record KV =
  Key :: byteslice
  Value :: byteslice

text \<open>
  \<open>WriteBatch\<close>: the batch is the ordered sequence of its entries (\<open>AddEntry\<close> appends one).
  The completion callback is a closure and is left out; the calls of a memtable's
  \<open>Committed\<close>, which run the callbacks, are recorded in the engine's \<open>committedCalls\<close>.
\<close>

record WriteBatch =
  ProcessorID :: "64 word"
  SequenceNum :: "64 word"
  Batch :: "KV list"

text \<open>Source: \<open>NewWriteBatch\<close>, shakti.go lines 83-90.\<close>

definition NewWriteBatch :: "64 word \<Rightarrow> 64 word \<Rightarrow> KV list \<Rightarrow> WriteBatch" where
  "NewWriteBatch processorID sequenceNum batch =
     \<lparr>ProcessorID = processorID, SequenceNum = sequenceNum, Batch = batch\<rparr>"

record Conf =
  MemtableMaxSizeBytes :: "64 word"
  MemtableFlushQueueMaxSize :: "64 word"
  MemTableMaxReplaceTime :: "64 word"
  DisableBatchSequenceInsertion :: bool

text \<open>
  The values of the interface \<open>iteration.Iterator\<close> that the engine builds. A memtable
  iterator names its memtable by pointer (\<open>None\<close> is the nil pointer). \<open>NilIterator\<close> is a
  slot of a slice that was made and not assigned. The argument of
  \<open>NewChainingIterator\<close> is a slice; the model records its contents at the call.
\<close>

datatype iterator =
    NilIterator
  | MemtableIterator "nat option" byteslice byteslice
  | LazySSTableIterator byteslice byteslice byteslice
  | ChainingIterator "iterator list"

record MergingIterator =
  iters :: "iterator list"

record shaktiIterator =
  rangeStart :: byteslice
  rangeEnd :: byteslice
  lastKey :: byteslice
  mi :: MergingIterator

record ssTableInfo =
  ssTableID :: byteslice
  largestKey :: byteslice
  smallestKey :: byteslice

record mtFlushEntry =
  fe_memtable :: "nat option"
  ssTabInfo :: "ssTableInfo option"

record RegistrationEntry =
  Level :: nat
  TableID :: byteslice
  KeyStart :: byteslice
  KeyEnd :: byteslice

record RegistrationBatch =
  Registrations :: "RegistrationEntry list"
  Deregistrations :: "RegistrationEntry list"

text \<open>
  The packages the engine calls and whose code is not part of shakti.go: the memtable
  (\<open>mem\<close>), the clock and the byte helpers (\<open>common\<close>), the key prefix (\<open>cmn\<close>), the
  controller, the SSTable iterators and the merging iterator. Each is a parameter; the
  type \<open>'mt\<close> is the state of one memtable.

  \<^item> \<open>NanoTime n\<close> is what the \<open>n\<close>-th call of \<open>common.NanoTime()\<close> returns;
  \<^item> \<open>mt_Write m kvs\<close> is \<open>(ok, err, m')\<close>: the two results of \<open>Memtable.Write\<close> and the
    memtable afterwards;
  \<^item> the controller is the list of the registration batches it has applied;
    \<open>ApplyChanges_err\<close> tells whether it refuses the next one;
  \<^item> \<open>mi_IsValid\<close> and \<open>mi_Current\<close> read a merging iterator over its sources, given the
    memtables.
\<close>

record 'mt externals =
  NanoTime :: "nat \<Rightarrow> 64 word"
  NewMemtable :: "32 word \<Rightarrow> 'mt"
  mt_Write :: "'mt \<Rightarrow> KV list \<Rightarrow> bool \<times> error option \<times> 'mt"
  EncodeKeyPrefix :: "byteslice \<Rightarrow> 64 word \<Rightarrow> 64 word \<Rightarrow> 64 word \<Rightarrow> byteslice"
  SystemTableDedupID :: "64 word"
  IncrementBytesBigEndian :: "byteslice \<Rightarrow> byteslice"
  GetTableIDsForRange ::
    "RegistrationBatch list \<Rightarrow> byteslice \<Rightarrow> byteslice \<Rightarrow> nat \<Rightarrow> error + byteslice list list"
  ApplyChanges_err :: "RegistrationBatch list \<Rightarrow> RegistrationBatch \<Rightarrow> error option"
  NewLazySSTableIterator_err :: "byteslice \<Rightarrow> byteslice \<Rightarrow> byteslice \<Rightarrow> error option"
  NewMergingIterator_err :: "iterator list \<Rightarrow> error option"
  mi_IsValid :: "(nat \<Rightarrow> 'mt) \<Rightarrow> iterator list \<Rightarrow> error + bool"
  mi_Current :: "(nat \<Rightarrow> 'mt) \<Rightarrow> iterator list \<Rightarrow> KV"

text \<open>
  The engine. Memtables and iterator handles are heap objects compared by pointer:
  \<open>memtable\<close> is the pointer of the active memtable, \<open>memtables\<close> gives the state of the
  memtable at each pointer, and \<open>next_ptr\<close> is the next pointer the allocator hands out.
  \<open>arena\<close> is the size of the arena allocated last. \<open>iterators\<close> is the set of registered
  handles, as a list of pointer and handle: a \<open>range\<close> over the Go map visits it in some
  order, and the list is that order. \<open>mtFlushChan\<close> counts the signals that were sent and
  not yet received; a send that waits for room in the channel is the state after it went
  through. \<open>nanoTimeCalls\<close> counts the readings of the clock.
\<close>

record 'mt Shakti =
  dbID :: "64 word"
  conf :: Conf
  memtable :: nat
  arena :: "32 word"
  memtables :: "nat \<Rightarrow> 'mt"
  next_ptr :: nat
  controller :: "RegistrationBatch list"
  mtFlushChan :: nat
  mtFlushQueue :: "mtFlushEntry list"
  iterators :: "(nat \<times> shaktiIterator) list"
  mtLastReplace :: "64 word"
  mtMaxReplaceTime :: "64 word"
  lastCommittedBatchSequences :: "64 word \<Rightarrow> 64 word option"
  nanoTimeCalls :: nat
  committedCalls :: "nat list"

text \<open>Source: \<open>NewShakti\<close>, shakti.go lines 43-58.\<close>

definition NewShakti :: "'mt externals \<Rightarrow> 64 word \<Rightarrow> Conf \<Rightarrow> 'mt Shakti" where
  "NewShakti ext dbID0 conf0 =
     \<lparr>dbID = dbID0, conf = conf0, memtable = 0,
      arena = ucast (MemtableMaxSizeBytes conf0),
      memtables = (\<lambda>_. NewMemtable ext (ucast (MemtableMaxSizeBytes conf0))),
      next_ptr = 1, controller = [], mtFlushChan = 0, mtFlushQueue = [], iterators = [],
      mtLastReplace = 0, mtMaxReplaceTime = MemTableMaxReplaceTime conf0,
      lastCommittedBatchSequences = (\<lambda>_. None), nanoTimeCalls = 0, committedCalls = []\<rparr>"

section \<open>Byte helpers\<close>

text \<open>
  Modelled from the spec: \<open>common.AppendUint64ToBufferLE\<close>, \<open>common.AppendUint64ToBufferBE\<close>
  and \<open>common.ReadUint64FromBufferLE\<close> are not in the sources. The spec names the values
  they produce \<open>le_u64(sequence)\<close> and \<open>be_u64(processor_id)\<close>: eight bytes, least
  significant first, respectively most significant first, appended to the buffer. The
  read takes eight bytes at the offset and returns the value and the offset after them;
  on a buffer that is too short the Go index panics, which is \<open>None\<close>.
\<close>

definition le_u64 :: "64 word \<Rightarrow> 8 word list" where
  "le_u64 v = map (\<lambda>i. ucast (drop_bit (8 * i) v)) [0, 1, 2, 3, 4, 5, 6, 7]"

definition be_u64 :: "64 word \<Rightarrow> 8 word list" where
  "be_u64 v = rev (le_u64 v)"

definition bytes_of :: "byteslice \<Rightarrow> 8 word list" where
  "bytes_of b = (case b of None \<Rightarrow> [] | Some bs \<Rightarrow> bs)"

definition AppendUint64ToBufferLE :: "byteslice \<Rightarrow> 64 word \<Rightarrow> byteslice" where
  "AppendUint64ToBufferLE buffer v = Some (bytes_of buffer @ le_u64 v)"

definition AppendUint64ToBufferBE :: "byteslice \<Rightarrow> 64 word \<Rightarrow> byteslice" where
  "AppendUint64ToBufferBE buffer v = Some (bytes_of buffer @ be_u64 v)"

fun u64_of_le :: "8 word list \<Rightarrow> 64 word" where
  "u64_of_le [] = 0"
| "u64_of_le (b # bs) = ucast b OR push_bit 8 (u64_of_le bs)"

definition ReadUint64FromBufferLE :: "byteslice \<Rightarrow> nat \<Rightarrow> (64 word \<times> nat) option" where
  "ReadUint64FromBufferLE buffer offset =
     (if offset + 8 \<le> length (bytes_of buffer)
      then Some (u64_of_le (take 8 (drop offset (bytes_of buffer))), offset + 8)
      else None)"

section \<open>The write path\<close>

text \<open>Source: \<open>createDedupKey\<close>, shakti.go lines 141-145.\<close>

definition createDedupKey :: "'mt externals \<Rightarrow> 'mt Shakti \<Rightarrow> 64 word \<Rightarrow> byteslice" where
  "createDedupKey ext s processorID =
     (let key = EncodeKeyPrefix ext None (dbID s) (SystemTableDedupID ext) 0
      in AppendUint64ToBufferBE key processorID)"

text \<open>Source: \<open>putDedupEntry\<close>, shakti.go lines 126-139.\<close>

definition putDedupEntry :: "'mt externals \<Rightarrow> 'mt Shakti \<Rightarrow> WriteBatch \<Rightarrow> WriteBatch" where
  "putDedupEntry ext s batch =
     (if DisableBatchSequenceInsertion (conf s) then batch
      else
        let key = createDedupKey ext s (ProcessorID batch);
            val = AppendUint64ToBufferLE None (SequenceNum batch)
        in batch\<lparr>Batch := Batch batch @ [\<lparr>Key = key, Value = val\<rparr>]\<rparr>)"

text \<open>\<open>checkDedupCache\<close> returns its boolean and the engine with the dedup map as it leaves it.\<close>

text \<open>Source: \<open>checkDedupCache\<close>, shakti.go lines 167-183.\<close>

definition checkDedupCache :: "'mt Shakti \<Rightarrow> WriteBatch \<Rightarrow> bool \<times> 'mt Shakti" where
  "checkDedupCache s batch =
     (if SequenceNum batch = - 1 then (True, s)
      else
        (case lastCommittedBatchSequences s (ProcessorID batch) of
           Some lastSeq \<Rightarrow>
             if sint (SequenceNum batch) \<le> sint lastSeq then (False, s)
             else (True, s\<lparr>lastCommittedBatchSequences :=
                             (lastCommittedBatchSequences s)(ProcessorID batch := Some (SequenceNum batch))\<rparr>)
         | None \<Rightarrow>
             (True, s\<lparr>lastCommittedBatchSequences :=
                        (lastCommittedBatchSequences s)(ProcessorID batch := Some (SequenceNum batch))\<rparr>)))"

text \<open>\<open>doWrite\<close> returns the memtable it wrote to, the two results of the write, and the engine.\<close>

text \<open>Source: \<open>doWrite\<close>, shakti.go lines 248-254.\<close>

definition doWrite ::
  "'mt externals \<Rightarrow> 'mt Shakti \<Rightarrow> WriteBatch \<Rightarrow> nat \<times> bool \<times> error option \<times> 'mt Shakti" where
  "doWrite ext s batch =
     (let mt = memtable s
      in case mt_Write ext (memtables s mt) (Batch batch) of
           (ok, err, m') \<Rightarrow> (mt, ok, err, s\<lparr>memtables := (memtables s)(mt := m')\<rparr>))"

section \<open>Rotation\<close>

text \<open>Source: \<open>getRange\<close>, shakti.go lines 538-540.\<close>

definition getRange :: "shaktiIterator \<Rightarrow> byteslice \<times> byteslice \<times> byteslice" where
  "getRange it = (rangeStart it, rangeEnd it, lastKey it)"

text \<open>
  Modelled from the spec: \<open>MergingIterator.PrependIterator\<close> is not in the sources. The spec
  has it put the new iterator in front of the sources, as the one of highest priority,
  and names no failure of it. The sources of a merging iterator are in priority order.
\<close>

definition PrependIterator :: "MergingIterator \<Rightarrow> iterator \<Rightarrow> error + MergingIterator" where
  "PrependIterator m it = Inr (m\<lparr>iters := it # iters m\<rparr>)"

text \<open>Source: \<open>addNewMemtableIterator\<close>, shakti.go lines 542-544.\<close>

definition addNewMemtableIterator :: "shaktiIterator \<Rightarrow> iterator \<Rightarrow> error + shaktiIterator" where
  "addNewMemtableIterator si it =
     (case PrependIterator (mi si) it of
        Inl err \<Rightarrow> Inl err
      | Inr m \<Rightarrow> Inr (si\<lparr>mi := m\<rparr>))"

text \<open>
  The loop of \<open>updateIterators\<close> over the registered handles: it stops at the first
  error, with the handles before it updated and the others not.
\<close>

text \<open>Source: \<open>updateIterators\<close>, shakti.go lines 234-246.\<close>

fun updateIterators_loop ::
  "'mt externals \<Rightarrow> nat \<Rightarrow> (nat \<times> shaktiIterator) list \<Rightarrow> error option \<times> (nat \<times> shaktiIterator) list" where
  "updateIterators_loop ext mt [] = (None, [])"
| "updateIterators_loop ext mt ((p, iter) # rest) =
     (case getRange iter of
        (rs, re, lastKey0) \<Rightarrow>
          (let rs1 = (if lastKey0 \<noteq> None then IncrementBytesBigEndian ext lastKey0 else rs);
               mtIter = MemtableIterator (Some mt) rs1 re
           in case addNewMemtableIterator iter mtIter of
                Inl err \<Rightarrow> (Some err, (p, iter) # rest)
              | Inr iter1 \<Rightarrow>
                  (case updateIterators_loop ext mt rest of
                     (e, rest1) \<Rightarrow> (e, (p, iter1) # rest1))))"

definition updateIterators :: "'mt externals \<Rightarrow> nat \<Rightarrow> 'mt Shakti \<Rightarrow> error option \<times> 'mt Shakti" where
  "updateIterators ext mt s =
     (case updateIterators_loop ext mt (iterators s) of
        (e, its) \<Rightarrow> (e, s\<lparr>iterators := its\<rparr>))"

text \<open>Source: \<open>replaceMemtable0\<close>, shakti.go lines 198-232.\<close>

definition replaceMemtable0 :: "'mt externals \<Rightarrow> nat \<Rightarrow> 'mt Shakti \<Rightarrow> error option \<times> 'mt Shakti" where
  "replaceMemtable0 ext mt s =
     (if mt = memtable s then
        (let a = (ucast (MemtableMaxSizeBytes (conf s)) :: 32 word);
             s1 = s\<lparr>arena := a, memtable := next_ptr s,
                    memtables := (memtables s)(next_ptr s := NewMemtable ext a),
                    next_ptr := Suc (next_ptr s)\<rparr>
         in case updateIterators ext (memtable s1) s1 of
              (Some err, s2) \<Rightarrow> (Some err, s2)
            | (None, s2) \<Rightarrow>
                (None, s2\<lparr>mtFlushQueue := mtFlushQueue s2 @ [\<lparr>fe_memtable = Some mt, ssTabInfo = None\<rparr>],
                          mtFlushChan := Suc (mtFlushChan s2),
                          mtLastReplace := NanoTime ext (nanoTimeCalls s2),
                          nanoTimeCalls := Suc (nanoTimeCalls s2)\<rparr>))
      else (None, s))"

text \<open>Source: \<open>replaceMemtable\<close>, shakti.go lines 192-196.\<close>

definition replaceMemtable :: "'mt externals \<Rightarrow> nat \<Rightarrow> 'mt Shakti \<Rightarrow> error option \<times> 'mt Shakti" where
  "replaceMemtable ext mt s = replaceMemtable0 ext mt s"

text \<open>Source: \<open>forceReplaceMemtable\<close>, shakti.go lines 186-190.\<close>

definition forceReplaceMemtable :: "'mt externals \<Rightarrow> 'mt Shakti \<Rightarrow> error option \<times> 'mt Shakti" where
  "forceReplaceMemtable ext s = replaceMemtable0 ext (memtable s) s"

text \<open>
  \<open>maybeReplaceMemtable\<close>: the subtraction is the code's, \<open>mtLastReplace - now\<close> on
  \<open>uint64\<close>, which wraps around; the comparison is unsigned.
\<close>

text \<open>Source: \<open>maybeReplaceMemtable\<close>, shakti.go lines 499-512.\<close>

definition maybeReplaceMemtable :: "'mt externals \<Rightarrow> 'mt Shakti \<Rightarrow> error option \<times> 'mt Shakti" where
  "maybeReplaceMemtable ext s =
     (let now = NanoTime ext (nanoTimeCalls s);
          s1 = s\<lparr>nanoTimeCalls := Suc (nanoTimeCalls s)\<rparr>
      in if mtLastReplace s1 = 0 \<or> mtLastReplace s1 - now \<ge> mtMaxReplaceTime s1
         then replaceMemtable ext (memtable s1) s1
         else (None, s1))"

text \<open>
  \<open>Write\<close> is a loop without a bound: it runs again after each rotation. \<open>None\<close> is
  the loop that never returns; \<open>Some (err, s, batch)\<close> is the returned error, the engine
  and the batch as the call leaves it (\<open>putDedupEntry\<close> appends to the caller's batch).
\<close>

text \<open>Source: \<open>Write\<close>, shakti.go lines 103-124.\<close>

partial_function (option) Write ::
  "'mt externals \<Rightarrow> 'mt Shakti \<Rightarrow> WriteBatch \<Rightarrow> (error option \<times> 'mt Shakti \<times> WriteBatch) option" where
  "Write ext s batch =
     (case checkDedupCache s batch of
        (ok, s1) \<Rightarrow>
          if \<not> ok then Some (None, s1, batch)
          else
            (let batch1 = putDedupEntry ext s1 batch
             in case doWrite ext s1 batch1 of
                  (mt, ok1, err, s2) \<Rightarrow>
                    (case err of
                       Some e \<Rightarrow> Some (Some e, s2, batch1)
                     | None \<Rightarrow>
                         if ok1 then Some (None, s2, batch1)
                         else
                           (case replaceMemtable ext mt s2 of
                              (Some e, s3) \<Rightarrow> Some (Some e, s3, batch1)
                            | (None, s3) \<Rightarrow> Write ext s3 batch1))))"

section \<open>Range iteration\<close>

text \<open>
  An index into a Go slice that is out of range panics; \<open>None\<close> is the panic.
\<close>

definition set_at :: "'a list \<Rightarrow> nat \<Rightarrow> 'a \<Rightarrow> 'a list option" where
  "set_at xs i x = (if i < length xs then Some (xs[i := x]) else None)"

text \<open>
  The second loop of \<open>NewIterator\<close>: the memtables of the flush queue, from the newest to
  the oldest. It is run on the reversed queue.
\<close>

fun queueIterators ::
  "byteslice \<Rightarrow> byteslice \<Rightarrow> mtFlushEntry list \<Rightarrow> nat \<Rightarrow> iterator list \<Rightarrow> (iterator list \<times> nat) option" where
  "queueIterators keyStart keyEnd [] pos its = Some (its, pos)"
| "queueIterators keyStart keyEnd (fe # fes) pos its =
     (case set_at its pos (MemtableIterator (fe_memtable fe) keyStart keyEnd) of
        None \<Rightarrow> None
      | Some its1 \<Rightarrow> queueIterators keyStart keyEnd fes (Suc pos) its1)"

text \<open>
  \<open>sst.NewLazySSTableIterator\<close> either fails or gives the lazy iterator over the table.
\<close>

definition NewLazySSTableIterator ::
  "'mt externals \<Rightarrow> byteslice \<Rightarrow> byteslice \<Rightarrow> byteslice \<Rightarrow> error + iterator" where
  "NewLazySSTableIterator ext tableID keyStart keyEnd =
     (case NewLazySSTableIterator_err ext tableID keyStart keyEnd of
        Some err \<Rightarrow> Inl err
      | None \<Rightarrow> Inr (LazySSTableIterator tableID keyStart keyEnd))"

text \<open>The inner loop that fills \<open>chainIters\<close> for one group.\<close>

fun chainIters_loop ::
  "'mt externals \<Rightarrow> byteslice \<Rightarrow> byteslice \<Rightarrow> byteslice list \<Rightarrow> error + iterator list" where
  "chainIters_loop ext keyStart keyEnd [] = Inr []"
| "chainIters_loop ext keyStart keyEnd (nonOverlapID # rest) =
     (case NewLazySSTableIterator ext nonOverlapID keyStart keyEnd of
        Inl err \<Rightarrow> Inl err
      | Inr lazy \<Rightarrow>
          (case chainIters_loop ext keyStart keyEnd rest of
             Inl err \<Rightarrow> Inl err
           | Inr chainIters \<Rightarrow> Inr (lazy # chainIters)))"

text \<open>
  The third loop, over the groups of table ids. In the branch of a group that has not
  exactly one member the code fills \<open>chainIters\<close> and then calls
  \<open>NewChainingIterator(iters)\<close>: the argument is \<open>iters\<close>, and \<open>chainIters\<close> is not used
  again.
\<close>

fun tableIterators ::
  "'mt externals \<Rightarrow> byteslice \<Rightarrow> byteslice \<Rightarrow> byteslice list list \<Rightarrow> nat \<Rightarrow> iterator list
     \<Rightarrow> (error + iterator list) option" where
  "tableIterators ext keyStart keyEnd [] pos its = Some (Inr its)"
| "tableIterators ext keyStart keyEnd (nonOverLapIDs # ids) pos its =
     (case nonOverLapIDs of
        [tableID] \<Rightarrow>
          (case NewLazySSTableIterator ext tableID keyStart keyEnd of
             Inl err \<Rightarrow> Some (Inl err)
           | Inr lazy \<Rightarrow>
               (case set_at its pos lazy of
                  None \<Rightarrow> None
                | Some its1 \<Rightarrow> tableIterators ext keyStart keyEnd ids (Suc pos) its1))
      | _ \<Rightarrow>
          (case chainIters_loop ext keyStart keyEnd nonOverLapIDs of
             Inl err \<Rightarrow> Some (Inl err)
           | Inr chainIters \<Rightarrow>
               (case set_at its pos (ChainingIterator its) of
                  None \<Rightarrow> None
                | Some its1 \<Rightarrow> tableIterators ext keyStart keyEnd ids (Suc pos) its1)))"

text \<open>Source: \<open>newShaktiIterator\<close>, shakti.go lines 514-527.\<close>

definition newShaktiIterator ::
  "'mt externals \<Rightarrow> byteslice \<Rightarrow> byteslice \<Rightarrow> iterator list \<Rightarrow> error + shaktiIterator" where
  "newShaktiIterator ext rs re its =
     (case NewMergingIterator_err ext its of
        Some err \<Rightarrow> Inl err
      | None \<Rightarrow> Inr \<lparr>rangeStart = rs, rangeEnd = re, lastKey = None, mi = \<lparr>iters = its\<rparr>\<rparr>)"

text \<open>
  \<open>NewIterator\<close> returns an error or the pointer of the new handle, which it has
  registered; \<open>None\<close> is a panic.
\<close>

text \<open>Source: \<open>NewIterator\<close>, shakti.go lines 256-321.\<close>

definition NewIterator ::
  "'mt externals \<Rightarrow> byteslice \<Rightarrow> byteslice \<Rightarrow> 'mt Shakti \<Rightarrow> ((error + nat) \<times> 'mt Shakti) option" where
  "NewIterator ext keyStart keyEnd s =
     (case GetTableIDsForRange ext (controller s) keyStart keyEnd 10000 of
        Inl err \<Rightarrow> Some (Inl err, s)
      | Inr ids \<Rightarrow>
          (let its = replicate (length ids + 1 + length (mtFlushQueue s)) NilIterator
           in case set_at its 0 (MemtableIterator (Some (memtable s)) keyStart keyEnd) of
                None \<Rightarrow> None
              | Some its1 \<Rightarrow>
                  (case queueIterators keyStart keyEnd (rev (mtFlushQueue s)) 1 its1 of
                     None \<Rightarrow> None
                   | Some (its2, pos) \<Rightarrow>
                       (case tableIterators ext keyStart keyEnd ids pos its2 of
                          None \<Rightarrow> None
                        | Some (Inl err) \<Rightarrow> Some (Inl err, s)
                        | Some (Inr its3) \<Rightarrow>
                            (case newShaktiIterator ext keyStart keyEnd its3 of
                               Inl err \<Rightarrow> Some (Inl err, s)
                             | Inr si \<Rightarrow>
                                 Some (Inr (next_ptr s),
                                       s\<lparr>iterators := iterators s @ [(next_ptr s, si)],
                                         next_ptr := Suc (next_ptr s)\<rparr>))))))"

text \<open>Source: \<open>removeIterator\<close>, shakti.go lines 323-327.\<close>

definition removeIterator :: "nat \<Rightarrow> 'mt Shakti \<Rightarrow> 'mt Shakti" where
  "removeIterator p s = s\<lparr>iterators := filter (\<lambda>(q, si). q \<noteq> p) (iterators s)\<rparr>"

text \<open>
  The methods of a handle, by its pointer. The engine keeps the registered handles; a
  handle that was closed is not followed any further.
\<close>

text \<open>Source: \<open>shaktiIterator.IsValid\<close>, shakti.go lines 565-569.\<close>

definition IsValid :: "'mt externals \<Rightarrow> nat \<Rightarrow> 'mt Shakti \<Rightarrow> error + bool" where
  "IsValid ext p s =
     (case map_of (iterators s) p of
        Some si \<Rightarrow> mi_IsValid ext (memtables s) (iters (mi si))
      | None \<Rightarrow> Inr False)"

text \<open>Source: \<open>shaktiIterator.Current\<close>, shakti.go lines 551-557.\<close>

definition Current :: "'mt externals \<Rightarrow> nat \<Rightarrow> 'mt Shakti \<Rightarrow> KV \<times> 'mt Shakti" where
  "Current ext p s =
     (case map_of (iterators s) p of
        Some si \<Rightarrow>
          (let curr = mi_Current ext (memtables s) (iters (mi si))
           in (curr, s\<lparr>iterators :=
                         map (\<lambda>(q, sj). if q = p then (q, sj\<lparr>lastKey := Key curr\<rparr>) else (q, sj))
                           (iterators s)\<rparr>))
      | None \<Rightarrow> (\<lparr>Key = None, Value = None\<rparr>, s))"

text \<open>
  \<open>LoadLastBatchSequence\<close>: \<open>None\<close> is a panic (of \<open>NewIterator\<close>, or of the read of a
  value shorter than eight bytes). The handle is not closed by the code and stays
  registered.
\<close>

text \<open>Source: \<open>LoadLastBatchSequence\<close>, shakti.go lines 147-165.\<close>

definition LoadLastBatchSequence ::
  "'mt externals \<Rightarrow> 64 word \<Rightarrow> 'mt Shakti \<Rightarrow> (error option \<times> 'mt Shakti) option" where
  "LoadLastBatchSequence ext processorID s =
     (let rs = createDedupKey ext s processorID;
          re = IncrementBytesBigEndian ext rs
      in case NewIterator ext rs re s of
           None \<Rightarrow> None
         | Some (Inl err, s1) \<Rightarrow> Some (Some err, s1)
         | Some (Inr it, s1) \<Rightarrow>
             (case IsValid ext it s1 of
                Inl err \<Rightarrow> Some (Some err, s1)
              | Inr valid \<Rightarrow>
                  if valid then
                    (case Current ext it s1 of
                       (kv, s2) \<Rightarrow>
                         (case ReadUint64FromBufferLE (Value kv) 0 of
                            None \<Rightarrow> None
                          | Some (lastSequence, off) \<Rightarrow>
                              Some (None, s2\<lparr>lastCommittedBatchSequences :=
                                               (lastCommittedBatchSequences s2)(processorID := Some lastSequence)\<rparr>)))
                  else Some (None, s1)))"

section \<open>The flush pipeline\<close>

datatype loop_status = Running | Returned | Panicked

text \<open>
  The registration loop inside \<open>mtFlushRunLoop\<close>, from index \<open>i\<close>, under the bound \<open>pos\<close>.
  It ends by the \<open>break\<close> or the bound (\<open>Drained\<close>, with the index it stopped at), by
  the \<open>return\<close> after a failed \<open>ApplyChanges\<close> (\<open>DrainReturn\<close>), or by a panic
  (\<open>DrainPanic\<close>: an index out of range, or \<open>Committed\<close> called on a nil memtable).
\<close>

datatype 'mt drain_result = Drained nat "'mt Shakti" | DrainReturn "'mt Shakti" | DrainPanic "'mt Shakti"

definition registration :: "ssTableInfo \<Rightarrow> RegistrationBatch" where
  "registration tabInfo =
     \<lparr>Registrations = [\<lparr>Level = 0, TableID = ssTableID tabInfo,
                        KeyStart = smallestKey tabInfo, KeyEnd = largestKey tabInfo\<rparr>],
      Deregistrations = []\<rparr>"

text \<open>Source: \<open>mtFlushRunLoop, the inner loop\<close>, shakti.go lines 389-413.\<close>

function drain :: "'mt externals \<Rightarrow> nat \<Rightarrow> nat \<Rightarrow> 'mt Shakti \<Rightarrow> 'mt drain_result" where
  "drain ext pos i s =
     (if i < pos then
        (if length (mtFlushQueue s) \<le> i then DrainPanic s
         else
           (let fe = mtFlushQueue s ! i
            in case ssTabInfo fe of
                 None \<Rightarrow> Drained i s
               | Some tabInfo \<Rightarrow>
                   (case ApplyChanges_err ext (controller s) (registration tabInfo) of
                      Some err \<Rightarrow> DrainReturn s
                    | None \<Rightarrow>
                        (let s1 = s\<lparr>controller := controller s @ [registration tabInfo]\<rparr>
                         in case fe_memtable fe of
                              None \<Rightarrow> DrainPanic s1
                            | Some m \<Rightarrow>
                                drain ext pos (Suc i)
                                  (s1\<lparr>committedCalls := committedCalls s1 @ [m],
                                      mtFlushQueue := (mtFlushQueue s1)[i := fe\<lparr>fe_memtable := None\<rparr>]\<rparr>)))))
      else Drained i s)"
  by pat_completeness auto
termination
  by (relation "measure (\<lambda>(ext, pos, i, s). pos - i)") auto

declare drain.simps [simp del]

text \<open>
  One turn of the loop \<open>for range s.mtFlushChan\<close>, after the signal was received: the
  status of the loop afterwards, its local \<open>pos\<close>, the engine, and the index in the queue
  of the entry whose upload the turn starts, if it starts one.
\<close>

text \<open>Source: \<open>mtFlushRunLoop, the body of the outer loop\<close>, shakti.go lines 383-443.\<close>

definition mtFlushRunLoop_turn ::
  "'mt externals \<Rightarrow> nat \<Rightarrow> 'mt Shakti \<Rightarrow> loop_status \<times> nat \<times> 'mt Shakti \<times> nat option" where
  "mtFlushRunLoop_turn ext pos s =
     (case drain ext pos 0 s of
        DrainPanic s1 \<Rightarrow> (Panicked, pos, s1, None)
      | DrainReturn s1 \<Rightarrow> (Returned, pos, s1, None)
      | Drained i s1 \<Rightarrow>
          (let s2 = (if 0 < i then s1\<lparr>mtFlushQueue := drop i (mtFlushQueue s1)\<rparr> else s1);
               pos2 = (if 0 < i then pos - i else pos)
           in if 0 < i \<and> pos2 = length (mtFlushQueue s2) then (Running, pos2, s2, None)
              else if length (mtFlushQueue s2) \<le> pos2 then (Panicked, pos2, s2, None)
              else (Running, Suc pos2, s2, Some pos2)))"

text \<open>
  \<open>flushMemtable\<close>, which runs in the goroutine that a turn of the loop starts. Building
  the SSTable, drawing its id, adding it to the table cache and storing it in the cloud
  store are external: \<open>built\<close> is their outcome, the error on which the function returns
  or the description of the stored table with the two sizes the function returns. After
  them come \<open>setSSTableInfo\<close> on the entry and the signal; the function never calls the
  controller. The entry is reached through a pointer into the array the queue had when
  the turn took it: \<open>idx\<close> is where that entry stands in the queue now, and an index
  outside the queue is a pointer into an array the queue has left.
\<close>

text \<open>Source: \<open>flushMemtable\<close>, shakti.go lines 450-482.\<close>

definition flushMemtable ::
  "nat \<Rightarrow> error + ssTableInfo \<times> nat \<times> nat \<Rightarrow> 'mt Shakti \<Rightarrow> (error + nat \<times> nat) \<times> 'mt Shakti" where
  "flushMemtable idx built s =
     (case built of
        Inl err \<Rightarrow> (Inl err, s)
      | Inr (info, size_bytes, num_entries) \<Rightarrow>
          (Inr (size_bytes, num_entries),
           s\<lparr>mtFlushQueue :=
               (if idx < length (mtFlushQueue s)
                then (mtFlushQueue s)[idx := (mtFlushQueue s ! idx)\<lparr>ssTabInfo := Some info\<rparr>]
                else mtFlushQueue s),
             mtFlushChan := Suc (mtFlushChan s)\<rparr>))"

text \<open>
  Executions of the pipeline. The steps are a rotation called with some memtable
  pointer, a run of \<open>flushMemtable\<close> (for any entry, in any order, with any outcome), and
  a turn of the run loop, which takes one signal. \<open>pos\<close> and \<open>status\<close> are the local state of the run loop.
  After a panic the process is gone and nothing happens; after the loop has returned,
  no turn is taken any more.
\<close>

datatype event = Rotate nat | Flush nat "error + ssTableInfo \<times> nat \<times> nat" | LoopTurn

record runLoop =
  pos :: nat
  status :: loop_status

fun step :: "'mt externals \<Rightarrow> event \<Rightarrow> runLoop \<times> 'mt Shakti \<Rightarrow> runLoop \<times> 'mt Shakti" where
  "step ext ev (l, s) =
     (if status l = Panicked then (l, s)
      else
        (case ev of
           Rotate mt \<Rightarrow> (l, snd (replaceMemtable ext mt s))
         | Flush idx built \<Rightarrow> (l, snd (flushMemtable idx built s))
         | LoopTurn \<Rightarrow>
             if status l = Running \<and> 0 < mtFlushChan s then
               (case mtFlushRunLoop_turn ext (pos l) (s\<lparr>mtFlushChan := mtFlushChan s - 1\<rparr>) of
                  (st, p, s1, started) \<Rightarrow> (\<lparr>pos = p, status = st\<rparr>, s1))
             else (l, s)))"

fun run :: "'mt externals \<Rightarrow> event list \<Rightarrow> runLoop \<times> 'mt Shakti \<Rightarrow> runLoop \<times> 'mt Shakti" where
  "run ext [] st = st"
| "run ext (ev # evs) st = run ext evs (step ext ev st)"

text \<open>
  The memtables that the rotations of an execution put on the flush queue, in the order
  of the rotations: a rotation enqueues the memtable it was called with when that is the
  active one.
\<close>

fun enqueued :: "'mt externals \<Rightarrow> event list \<Rightarrow> runLoop \<times> 'mt Shakti \<Rightarrow> nat list" where
  "enqueued ext [] st = []"
| "enqueued ext (ev # evs) st =
     (case ev of
        Rotate mt \<Rightarrow> (if status (fst st) \<noteq> Panicked \<and> mt = memtable (snd st) then [mt] else [])
      | _ \<Rightarrow> [])
     @ enqueued ext evs (step ext ev st)"

text \<open>The memtables of the entries of the queue, in queue order.\<close>

fun pending :: "mtFlushEntry list \<Rightarrow> nat list" where
  "pending [] = []"
| "pending (fe # fes) = (case fe_memtable fe of None \<Rightarrow> pending fes | Some m \<Rightarrow> m # pending fes)"

text \<open>
  The table that the upload of each memtable produced. \<open>flushMemtable\<close> builds the table
  from the memtable of the entry it is given and sets its description on that entry: a
  run of \<open>flushMemtable\<close> that stores a table, on an entry of the queue that holds the
  memtable \<open>m\<close>, gives \<open>m\<close> that table. \<open>uploaded\<close> follows an execution and returns, for
  each memtable, the description of the table last stored for it.
\<close>

definition upload_of :: "event \<Rightarrow> runLoop \<times> 'mt Shakti \<Rightarrow> (nat \<rightharpoonup> ssTableInfo) \<Rightarrow> nat \<rightharpoonup> ssTableInfo" where
  "upload_of ev st T =
     (case ev of
        Flush idx built \<Rightarrow>
          (case built of
             Inl err \<Rightarrow> T
           | Inr (info, size_bytes, num_entries) \<Rightarrow>
               if status (fst st) \<noteq> Panicked \<and> idx < length (mtFlushQueue (snd st)) then
                 (case fe_memtable (mtFlushQueue (snd st) ! idx) of
                    None \<Rightarrow> T
                  | Some m \<Rightarrow> T(m \<mapsto> info))
               else T)
      | _ \<Rightarrow> T)"

fun uploaded ::
  "'mt externals \<Rightarrow> event list \<Rightarrow> runLoop \<times> 'mt Shakti \<Rightarrow> (nat \<rightharpoonup> ssTableInfo) \<Rightarrow> nat \<rightharpoonup> ssTableInfo" where
  "uploaded ext [] st T = T"
| "uploaded ext (ev # evs) st T = uploaded ext evs (step ext ev st) (upload_of ev st T)"

section \<open>A small instance of the external packages\<close>

text \<open>
  Modelled from the spec: an instance of the external packages, to run the engine on
  concrete inputs. The memtable is the one of the spec's contract: a store over a bounded
  arena whose write either takes the whole batch or returns "full" with the batch
  unapplied; the arena is counted in bytes of keys and values. The merged view is read
  at the start key of the range: the iterator is valid when a memtable among its
  sources holds that key, and its current entry is the one of the first such source,
  as last written. The controller knows no table.
\<close>

record ToyMemtable =
  capacity :: nat
  entries :: "KV list"

definition kv_size :: "KV \<Rightarrow> nat" where
  "kv_size kv = length (bytes_of (Key kv)) + length (bytes_of (Value kv))"

definition toy_NewMemtable :: "32 word \<Rightarrow> ToyMemtable" where
  "toy_NewMemtable a = \<lparr>capacity = unat a, entries = []\<rparr>"

definition toy_Write :: "ToyMemtable \<Rightarrow> KV list \<Rightarrow> bool \<times> error option \<times> ToyMemtable" where
  "toy_Write m kvs =
     (if sum_list (map kv_size (entries m @ kvs)) \<le> capacity m
      then (True, None, m\<lparr>entries := entries m @ kvs\<rparr>)
      else (False, None, m))"

fun inc_le :: "8 word list \<Rightarrow> 8 word list" where
  "inc_le [] = []"
| "inc_le (x # xs) = (if x = 255 then 0 # inc_le xs else (x + 1) # xs)"

definition toy_Increment :: "byteslice \<Rightarrow> byteslice" where
  "toy_Increment b = (case b of None \<Rightarrow> None | Some bs \<Rightarrow> Some (rev (inc_le (rev bs))))"

fun toy_find :: "(nat \<Rightarrow> ToyMemtable) \<Rightarrow> iterator list \<Rightarrow> KV option" where
  "toy_find ms [] = None"
| "toy_find ms (MemtableIterator (Some p) rs re # its) =
     (case find (\<lambda>kv. Key kv = rs) (rev (entries (ms p))) of
        Some kv \<Rightarrow> Some kv
      | None \<Rightarrow> toy_find ms its)"
| "toy_find ms (it # its) = toy_find ms its"

definition toy_ext :: "ToyMemtable externals" where
  "toy_ext =
     \<lparr>NanoTime = (\<lambda>n. 1000 * (of_nat n + 1)),
      NewMemtable = toy_NewMemtable,
      mt_Write = toy_Write,
      EncodeKeyPrefix =
        (\<lambda>buffer db tab shard. Some (bytes_of buffer @ be_u64 db @ be_u64 tab @ be_u64 shard)),
      SystemTableDedupID = 3,
      IncrementBytesBigEndian = toy_Increment,
      GetTableIDsForRange = (\<lambda>ctl ks ke limit. Inr []),
      ApplyChanges_err = (\<lambda>ctl b. None),
      NewLazySSTableIterator_err = (\<lambda>i ks ke. None),
      NewMergingIterator_err = (\<lambda>its. None),
      mi_IsValid = (\<lambda>ms its. Inr (toy_find ms its \<noteq> None)),
      mi_Current =
        (\<lambda>ms its. case toy_find ms its of Some kv \<Rightarrow> kv | None \<Rightarrow> \<lparr>Key = None, Value = None\<rparr>)\<rparr>"

definition toy_conf :: Conf where
  "toy_conf = \<lparr>MemtableMaxSizeBytes = 64, MemtableFlushQueueMaxSize = 4,
     MemTableMaxReplaceTime = 1000, DisableBatchSequenceInsertion = False\<rparr>"

definition toy_engine :: "ToyMemtable Shakti" where
  "toy_engine = NewShakti toy_ext 1 toy_conf"

definition kv_a :: KV where
  "kv_a = \<lparr>Key = Some [97], Value = Some [49]\<rparr>"

definition kv_big :: KV where
  "kv_big = \<lparr>Key = Some (replicate 30 97), Value = Some (replicate 30 49)\<rparr>"

text \<open>An engine whose active memtable holds sixty of its sixty-four bytes.\<close>

definition full_engine :: "ToyMemtable Shakti" where
  "full_engine = toy_engine\<lparr>memtables := (memtables toy_engine)(0 := \<lparr>capacity = 64, entries = [kv_big]\<rparr>)\<rparr>"

text \<open>The same packages with a memtable whose write returns an error.\<close>

definition failing_ext :: "ToyMemtable externals" where
  "failing_ext = toy_ext\<lparr>mt_Write := (\<lambda>m kvs. (False, Some (Error ''write failed''), m))\<rparr>"

definition failing_engine :: "ToyMemtable Shakti" where
  "failing_engine = NewShakti failing_ext 1 toy_conf"

definition engine_no_rows :: "ToyMemtable Shakti" where
  "engine_no_rows = NewShakti failing_ext 1 (toy_conf\<lparr>DisableBatchSequenceInsertion := True\<rparr>)"

text \<open>
  Inputs for running the model: the descriptions of two uploaded tables, the packages with
  a controller that returns one group of two tables, an engine with two registered
  iterators (one has delivered the key \<open>b\<close>), and an engine after a restart, whose
  memtable holds what the write of a batch of processor 7 with sequence number 10
  stored and whose dedup map is empty.
\<close>

definition info0 :: ssTableInfo where
  "info0 = \<lparr>ssTableID = Some [1], largestKey = Some [122], smallestKey = Some [97]\<rparr>"

definition info1 :: ssTableInfo where
  "info1 = \<lparr>ssTableID = Some [2], largestKey = Some [121], smallestKey = Some [98]\<rparr>"

definition two_table_ext :: "ToyMemtable externals" where
  "two_table_ext = toy_ext\<lparr>GetTableIDsForRange := (\<lambda>ctl ks ke limit. Inr [[Some [1], Some [2]]])\<rparr>"

definition it_fresh :: shaktiIterator where
  "it_fresh = \<lparr>rangeStart = Some [97], rangeEnd = Some [122], lastKey = None,
               mi = \<lparr>iters = [MemtableIterator (Some 0) (Some [97]) (Some [122])]\<rparr>\<rparr>"

definition it_read :: shaktiIterator where
  "it_read = \<lparr>rangeStart = Some [97], rangeEnd = Some [122], lastKey = Some [98],
              mi = \<lparr>iters = [MemtableIterator (Some 0) (Some [97]) (Some [122])]\<rparr>\<rparr>"

definition reading_engine :: "ToyMemtable Shakti" where
  "reading_engine = toy_engine\<lparr>iterators := [(5, it_fresh), (6, it_read)], next_ptr := 7\<rparr>"

definition recovered_engine :: "ToyMemtable Shakti" where
  "recovered_engine =
     toy_engine\<lparr>memtables := (memtables toy_engine)
       (0 := \<lparr>capacity = 64, entries = Batch (putDedupEntry toy_ext toy_engine (NewWriteBatch 7 10 [kv_a]))\<rparr>)\<rparr>"

text \<open>
  Predicates for the proofs about the flush pipeline. \<open>drain_post s s'\<close>: the calls of
  \<open>Committed\<close> followed by the memtables still in the queue are the same list in \<open>s'\<close> as
  in \<open>s\<close>, every registration was followed by its call of \<open>Committed\<close>, and the active
  memtable is the same. \<open>drain_ok\<close> adds, for a loop that ended at index \<open>j\<close>, that the
  entries before \<open>j\<close> have given up their memtable and the others have theirs.
  \<open>pipeline_inv\<close> is the invariant of an execution and \<open>logged\<close> the list it is about;
  \<open>drain_state\<close> is the engine as the registration loop leaves it.
\<close>

definition drain_post :: "'mt Shakti \<Rightarrow> 'mt Shakti \<Rightarrow> bool" where
  "drain_post s s' \<longleftrightarrow>
     committedCalls s' @ pending (mtFlushQueue s') = committedCalls s @ pending (mtFlushQueue s)
     \<and> length (controller s') = length (committedCalls s')
     \<and> memtable s' = memtable s"

fun drain_ok :: "'mt Shakti \<Rightarrow> 'mt drain_result \<Rightarrow> bool" where
  "drain_ok s (Drained j s') =
     (drain_post s s' \<and> pending (take j (mtFlushQueue s')) = []
      \<and> (\<forall>fe \<in> set (drop j (mtFlushQueue s')). fe_memtable fe \<noteq> None))"
| "drain_ok s (DrainReturn s') = drain_post s s'"
| "drain_ok s (DrainPanic s') = drain_post s s'"

fun drain_state :: "'mt drain_result \<Rightarrow> 'mt Shakti" where
  "drain_state (Drained j s) = s"
| "drain_state (DrainReturn s) = s"
| "drain_state (DrainPanic s) = s"

definition pipeline_inv :: "runLoop \<times> 'mt Shakti \<Rightarrow> bool" where
  "pipeline_inv st \<longleftrightarrow>
     (status (fst st) = Running \<longrightarrow> (\<forall>fe \<in> set (mtFlushQueue (snd st)). fe_memtable fe \<noteq> None))
     \<and> length (controller (snd st)) = length (committedCalls (snd st))"

definition logged :: "runLoop \<times> 'mt Shakti \<Rightarrow> nat list" where
  "logged st = committedCalls (snd st) @ pending (mtFlushQueue (snd st))"

text \<open>
  \<open>tables_inv st T\<close>, for the table \<open>T\<close> of the uploads so far: the controller holds, for
  each call of \<open>Committed\<close> and in the same order, the registration of the table uploaded
  for that memtable; an entry that holds a memtable carries the table uploaded for it,
  if any; no memtable is enqueued twice; the enqueued memtables were created before the
  active one, for which nothing was uploaded.
\<close>

definition tables_inv :: "runLoop \<times> 'mt Shakti \<Rightarrow> (nat \<rightharpoonup> ssTableInfo) \<Rightarrow> bool" where
  "tables_inv st T \<longleftrightarrow>
     map Some (controller (snd st)) = map (\<lambda>m. map_option registration (T m)) (committedCalls (snd st))
     \<and> (\<forall>fe \<in> set (mtFlushQueue (snd st)). \<forall>m. fe_memtable fe = Some m \<longrightarrow> ssTabInfo fe = T m)
     \<and> distinct (logged st)
     \<and> (\<forall>m \<in> set (logged st). m < memtable (snd st))
     \<and> memtable (snd st) < next_ptr (snd st)
     \<and> (\<forall>m. memtable (snd st) \<le> m \<longrightarrow> T m = None)"

text \<open>
  The engine after a rotation that went through, as \<open>replaceMemtable0\<close> leaves it when it
  is called with the active memtable.
\<close>

definition rotated :: "'mt externals \<Rightarrow> 'mt Shakti \<Rightarrow> 'mt Shakti" where
  "rotated ext s =
     s\<lparr>arena := ucast (MemtableMaxSizeBytes (conf s)),
       memtable := next_ptr s,
       memtables := (memtables s)(next_ptr s := NewMemtable ext (ucast (MemtableMaxSizeBytes (conf s)))),
       next_ptr := Suc (next_ptr s),
       iterators := snd (updateIterators_loop ext (next_ptr s) (iterators s)),
       mtFlushQueue := mtFlushQueue s @ [\<lparr>fe_memtable = Some (memtable s), ssTabInfo = None\<rparr>],
       mtFlushChan := Suc (mtFlushChan s),
       mtLastReplace := NanoTime ext (nanoTimeCalls s),
       nanoTimeCalls := Suc (nanoTimeCalls s)\<rparr>"

section \<open>Properties\<close>

lemma updateIterators_loop_ok: "fst (updateIterators_loop ext mt its) = None"
  by (induction its)
    (auto simp: getRange_def addNewMemtableIterator_def PrependIterator_def split: prod.splits)

lemma replaceMemtable0_active:
  "replaceMemtable0 ext (memtable s) s = (None, rotated ext s)"
proof -
  obtain e its where l: "updateIterators_loop ext (next_ptr s) (iterators s) = (e, its)"
    by (cases "updateIterators_loop ext (next_ptr s) (iterators s)")
  with updateIterators_loop_ok [of ext "next_ptr s" "iterators s"] have "e = None" by simp
  with l show ?thesis
    by (simp add: replaceMemtable0_def updateIterators_def rotated_def Let_def)
qed


subsection \<open>Helper facts about the write path\<close>

lemma toy_engine_fields:
  "memtable toy_engine = 0" "next_ptr toy_engine = 1" "mtFlushQueue toy_engine = []"
  "nanoTimeCalls toy_engine = 0" "mtMaxReplaceTime toy_engine = 1000" "mtLastReplace toy_engine = 0"
  "iterators toy_engine = []" "dbID toy_engine = 1" "conf toy_engine = toy_conf"
  "lastCommittedBatchSequences toy_engine = (\<lambda>p. None)"
  "memtables toy_engine = (\<lambda>p. \<lparr>capacity = 64, entries = []\<rparr>)"
  "controller toy_engine = []" "committedCalls toy_engine = []" "mtFlushChan toy_engine = 0"
  by (simp_all add: toy_engine_def NewShakti_def toy_conf_def toy_ext_def toy_NewMemtable_def)

lemma toy_ext_fields:
  "NanoTime toy_ext = (\<lambda>n. 1000 * (of_nat n + 1))"
  "NewMemtable toy_ext = toy_NewMemtable"
  "mt_Write toy_ext = toy_Write"
  "EncodeKeyPrefix toy_ext =
     (\<lambda>buffer db tab shard. Some (bytes_of buffer @ be_u64 db @ be_u64 tab @ be_u64 shard))"
  "SystemTableDedupID toy_ext = 3"
  "IncrementBytesBigEndian toy_ext = toy_Increment"
  "GetTableIDsForRange toy_ext = (\<lambda>ctl ks ke limit. Inr [])"
  "ApplyChanges_err toy_ext = (\<lambda>ctl b. None)"
  "NewLazySSTableIterator_err toy_ext = (\<lambda>i ks ke. None)"
  "NewMergingIterator_err toy_ext = (\<lambda>its. None)"
  "mi_IsValid toy_ext = (\<lambda>ms its. Inr (toy_find ms its \<noteq> None))"
  "mi_Current toy_ext =
     (\<lambda>ms its. case toy_find ms its of Some kv \<Rightarrow> kv | None \<Rightarrow> \<lparr>Key = None, Value = None\<rparr>)"
  by (simp_all add: toy_ext_def)

lemma two_table_ext_fields:
  "GetTableIDsForRange two_table_ext = (\<lambda>ctl ks ke limit. Inr [[Some [1], Some [2]]])"
  "NewLazySSTableIterator_err two_table_ext = (\<lambda>i ks ke. None)"
  "NewMergingIterator_err two_table_ext = (\<lambda>its. None)"
  by (simp_all add: two_table_ext_def toy_ext_def)

lemma checkDedupCache_pass:
  assumes "SequenceNum batch \<noteq> - 1" and "fst (checkDedupCache s batch)"
  shows "checkDedupCache s batch =
           (True, s\<lparr>lastCommittedBatchSequences :=
                      (lastCommittedBatchSequences s)(ProcessorID batch := Some (SequenceNum batch))\<rparr>)"
  using assms by (auto simp: checkDedupCache_def split: option.splits if_splits)

lemma putDedupEntry_frame:
  "putDedupEntry ext (s\<lparr>lastCommittedBatchSequences := f\<rparr>) batch = putDedupEntry ext s batch"
  by (simp add: putDedupEntry_def createDedupKey_def)

lemma putDedupEntry_ids:
  "SequenceNum (putDedupEntry ext s batch) = SequenceNum batch"
  "ProcessorID (putDedupEntry ext s batch) = ProcessorID batch"
  by (simp_all add: putDedupEntry_def Let_def)

lemma rotated_frame:
  "lastCommittedBatchSequences (rotated ext s) = lastCommittedBatchSequences s"
  "conf (rotated ext s) = conf s"
  "dbID (rotated ext s) = dbID s"
  by (simp_all add: rotated_def)

lemma replaceMemtable_cases:
  "replaceMemtable ext mt s = (None, if mt = memtable s then rotated ext s else s)"
proof (cases "mt = memtable s")
  case True
  then show ?thesis
    using replaceMemtable0_active [of ext s] by (simp add: replaceMemtable_def)
next
  case False
  then show ?thesis
    by (simp add: replaceMemtable_def replaceMemtable0_def)
qed

lemma le_u64_max: "le_u64 18446744073709551615 = [255, 255, 255, 255, 255, 255, 255, 255]"
  unfolding le_u64_def by (simp add: drop_bit_eq_div)

lemma le_u64_minus_one: "le_u64 (- 1) = [255, 255, 255, 255, 255, 255, 255, 255]"
proof -
  have "(- 1 :: 64 word) = 18446744073709551615" by simp
  then show ?thesis by (simp only: le_u64_max)
qed

lemma length_le_u64: "length (le_u64 v) = 8"
  by (simp add: le_u64_def)

lemma length_be_u64: "length (be_u64 v) = 8"
  by (simp add: be_u64_def length_le_u64)

text \<open>
  A write whose memtable returns an error: what \<open>Write\<close> returns, and what a second
  \<open>Write\<close> of the same batch returns.
\<close>

lemma Write_error_result:
  assumes seq: "SequenceNum batch \<noteq> - 1"
    and pass: "fst (checkDedupCache s batch)"
    and err: "mt_Write ext (memtables s (memtable s)) (Batch (putDedupEntry ext s batch)) = (ok, Some e, m')"
  shows "Write ext s batch =
           Some (Some e,
                 s\<lparr>lastCommittedBatchSequences :=
                     (lastCommittedBatchSequences s)(ProcessorID batch := Some (SequenceNum batch)),
                   memtables := (memtables s)(memtable s := m')\<rparr>,
                 putDedupEntry ext s batch)"
    and "Write ext
           (s\<lparr>lastCommittedBatchSequences :=
                (lastCommittedBatchSequences s)(ProcessorID batch := Some (SequenceNum batch)),
              memtables := (memtables s)(memtable s := m')\<rparr>)
           (putDedupEntry ext s batch) =
           Some (None,
                 s\<lparr>lastCommittedBatchSequences :=
                     (lastCommittedBatchSequences s)(ProcessorID batch := Some (SequenceNum batch)),
                   memtables := (memtables s)(memtable s := m')\<rparr>,
                 putDedupEntry ext s batch)"
proof -
  let ?s1 = "s\<lparr>lastCommittedBatchSequences :=
                 (lastCommittedBatchSequences s)(ProcessorID batch := Some (SequenceNum batch))\<rparr>"
  let ?b1 = "putDedupEntry ext s batch"
  let ?s2 = "?s1\<lparr>memtables := (memtables s)(memtable s := m')\<rparr>"
  have c1: "checkDedupCache s batch = (True, ?s1)"
    using seq pass by (rule checkDedupCache_pass)
  have b1: "putDedupEntry ext ?s1 batch = ?b1"
    by (rule putDedupEntry_frame)
  have w1: "doWrite ext ?s1 ?b1 = (memtable s, ok, Some e, ?s2)"
    using err by (simp add: doWrite_def Let_def)
  show "Write ext s batch = Some (Some e, ?s2, ?b1)"
    by (subst Write.simps) (simp add: c1 b1 w1)
  have c2: "checkDedupCache ?s2 ?b1 = (False, ?s2)"
    using seq by (simp add: checkDedupCache_def putDedupEntry_ids)
  show "Write ext ?s2 ?b1 = Some (None, ?s2, ?b1)"
    by (subst Write.simps) (simp add: c2)
qed

text \<open>
  A write with the sequence number -1 that returns: the dedup map is as before, and the
  batch has grown by the dedup row, once for each turn of the loop.
\<close>

lemma Write_bypass_returns:
  assumes "Write ext s batch = Some r"
    and "SequenceNum batch = - 1"
    and "\<not> DisableBatchSequenceInsertion (conf s)"
  shows "lastCommittedBatchSequences (fst (snd r)) = lastCommittedBatchSequences s
         \<and> (\<exists>n. Batch (snd (snd r)) =
                   Batch batch @ replicate (Suc n)
                     \<lparr>Key = createDedupKey ext s (ProcessorID batch),
                      Value = Some [255, 255, 255, 255, 255, 255, 255, 255]\<rparr>)"
  using assms(2,3)
proof (induction rule: Write.raw_induct [OF _ assms(1)])
  case (1 W ext s batch r)
  let ?row = "\<lparr>Key = createDedupKey ext s (ProcessorID batch),
               Value = Some [255, 255, 255, 255, 255, 255, 255, 255]\<rparr>"
  let ?b1 = "batch\<lparr>Batch := Batch batch @ [?row]\<rparr>"
  have c: "checkDedupCache s batch = (True, s)"
    using "1.prems" by (simp add: checkDedupCache_def)
  have p: "putDedupEntry ext s batch = ?b1"
    using "1.prems"
    by (simp add: putDedupEntry_def AppendUint64ToBufferLE_def bytes_of_def le_u64_minus_one Let_def)
  obtain ok1 err m' where w: "mt_Write ext (memtables s (memtable s)) (Batch ?b1) = (ok1, err, m')"
    by (cases "mt_Write ext (memtables s (memtable s)) (Batch ?b1)") auto
  let ?s2 = "s\<lparr>memtables := (memtables s)(memtable s := m')\<rparr>"
  have d: "doWrite ext s ?b1 = (memtable s, ok1, err, ?s2)"
    using w by (simp add: doWrite_def Let_def)
  show ?case
  proof (cases "err = None \<and> \<not> ok1")
    case False
    then have "r = (err, ?s2, ?b1)"
      using "1.hyps" by (cases err) (auto simp: c p d)
    then show ?thesis by (auto intro: exI [of _ 0])
  next
    case True
    then have rec: "W ext (rotated ext ?s2) ?b1 = Some r"
      using "1.hyps" by (simp add: c p d replaceMemtable_cases)
    have k: "createDedupKey ext (rotated ext ?s2) (ProcessorID batch) = createDedupKey ext s (ProcessorID batch)"
      by (simp add: createDedupKey_def rotated_frame)
    have q1: "SequenceNum ?b1 = - 1" using "1.prems" by simp
    have q2: "\<not> DisableBatchSequenceInsertion (conf (rotated ext ?s2))"
      using "1.prems" by (simp add: rotated_frame)
    have ih: "lastCommittedBatchSequences (fst (snd r)) = lastCommittedBatchSequences s
         \<and> (\<exists>n. Batch (snd (snd r)) = Batch ?b1 @ replicate (Suc n) ?row)"
      using "1.IH" [OF rec q1 q2] by (simp add: rotated_frame k)
    then obtain n where
      a: "lastCommittedBatchSequences (fst (snd r)) = lastCommittedBatchSequences s"
      and b: "Batch (snd (snd r)) = Batch ?b1 @ replicate (Suc n) ?row"
      by blast
    have "Batch (snd (snd r)) = Batch batch @ replicate (Suc (Suc n)) ?row"
      using b by simp
    with a show ?thesis by blast
  qed
qed

subsection \<open>The write path and the periodic check: C1, C2, C4, C8, C9, C10\<close>

text \<open>
  C1. The claim: when the memtable write returns "full", \<open>Write\<close> rotates once, retries
  once, and the retry applies the batch. What the code does for a batch with a sequence
  number other than -1 that passes the dedup check: the first turn of the loop records
  the sequence number in the dedup map, the memtable refuses the batch, the rotation
  installs a fresh memtable, and the second turn finds the sequence number it has just
  recorded and returns success. No memtable has taken the batch: the old one is as its
  refused write left it (\<open>m'\<close>) and the new active one is as \<open>NewMemtable\<close> made it.
\<close>

theorem Write_full_then_dropped:
  assumes seq: "SequenceNum batch \<noteq> - 1"
    and pass: "fst (checkDedupCache s batch)"
    and full: "mt_Write ext (memtables s (memtable s)) (Batch (putDedupEntry ext s batch)) = (False, None, m')"
  shows "\<exists>s'. Write ext s batch = Some (None, s', putDedupEntry ext s batch)
           \<and> memtable s' = next_ptr s
           \<and> memtables s' =
               ((memtables s)(memtable s := m'))
                 (next_ptr s := NewMemtable ext (ucast (MemtableMaxSizeBytes (conf s))))
           \<and> mtFlushQueue s' = mtFlushQueue s @ [\<lparr>fe_memtable = Some (memtable s), ssTabInfo = None\<rparr>]
           \<and> lastCommittedBatchSequences s' (ProcessorID batch) = Some (SequenceNum batch)"
proof -
  let ?s1 = "s\<lparr>lastCommittedBatchSequences :=
                 (lastCommittedBatchSequences s)(ProcessorID batch := Some (SequenceNum batch))\<rparr>"
  let ?b1 = "putDedupEntry ext s batch"
  let ?s2 = "?s1\<lparr>memtables := (memtables s)(memtable s := m')\<rparr>"
  have c1: "checkDedupCache s batch = (True, ?s1)"
    using seq pass by (rule checkDedupCache_pass)
  have b1: "putDedupEntry ext ?s1 batch = ?b1"
    by (rule putDedupEntry_frame)
  have w1: "doWrite ext ?s1 ?b1 = (memtable s, False, None, ?s2)"
    using full by (simp add: doWrite_def Let_def)
  have r1: "replaceMemtable ext (memtable s) ?s2 = (None, rotated ext ?s2)"
    using replaceMemtable0_active [of ext ?s2] by (simp add: replaceMemtable_def)
  have c2: "checkDedupCache (rotated ext ?s2) ?b1 = (False, rotated ext ?s2)"
    using seq by (simp add: checkDedupCache_def putDedupEntry_ids rotated_def)
  have "Write ext s batch = Write ext (rotated ext ?s2) ?b1"
    by (subst Write.simps) (simp add: c1 b1 w1 r1)
  also have "\<dots> = Some (None, rotated ext ?s2, ?b1)"
    by (subst Write.simps) (simp add: c2)
  finally have "Write ext s batch = Some (None, rotated ext ?s2, ?b1)" .
  then show ?thesis by (simp add: rotated_def)
qed

theorem Write_full_then_dropped_witness:
  "SequenceNum (NewWriteBatch 7 1 [kv_a]) \<noteq> - 1
   \<and> fst (checkDedupCache full_engine (NewWriteBatch 7 1 [kv_a]))
   \<and> (\<exists>s'. Write toy_ext full_engine (NewWriteBatch 7 1 [kv_a])
              = Some (None, s', putDedupEntry toy_ext full_engine (NewWriteBatch 7 1 [kv_a]))
          \<and> memtable s' = 1
          \<and> entries (memtables s' 0) = [kv_big]
          \<and> entries (memtables s' 1) = []
          \<and> lastCommittedBatchSequences s' 7 = Some 1)"
proof -
  let ?b = "NewWriteBatch 7 1 [kv_a]"
  have h1: "SequenceNum ?b \<noteq> - 1" by (simp add: NewWriteBatch_def)
  have h2: "fst (checkDedupCache full_engine ?b)"
    by (simp add: checkDedupCache_def NewWriteBatch_def full_engine_def toy_engine_def NewShakti_def)
  have h3: "mt_Write toy_ext (memtables full_engine (memtable full_engine))
              (Batch (putDedupEntry toy_ext full_engine ?b))
            = (False, None, \<lparr>capacity = 64, entries = [kv_big]\<rparr>)"
    by (simp add: toy_ext_def toy_Write_def full_engine_def toy_engine_def NewShakti_def toy_conf_def
        putDedupEntry_def createDedupKey_def NewWriteBatch_def kv_size_def kv_a_def kv_big_def
        AppendUint64ToBufferBE_def AppendUint64ToBufferLE_def bytes_of_def length_le_u64 length_be_u64)
  from Write_full_then_dropped [OF h1 h2 h3] obtain s' where
    "Write toy_ext full_engine ?b = Some (None, s', putDedupEntry toy_ext full_engine ?b)"
    "memtable s' = next_ptr full_engine"
    "memtables s' = ((memtables full_engine)(memtable full_engine := \<lparr>capacity = 64, entries = [kv_big]\<rparr>))
                 (next_ptr full_engine := NewMemtable toy_ext (ucast (MemtableMaxSizeBytes (conf full_engine))))"
    "lastCommittedBatchSequences s' (ProcessorID ?b) = Some (SequenceNum ?b)"
    by blast
  then have "Write toy_ext full_engine ?b = Some (None, s', putDedupEntry toy_ext full_engine ?b)
          \<and> memtable s' = 1
          \<and> entries (memtables s' 0) = [kv_big]
          \<and> entries (memtables s' 1) = []
          \<and> lastCommittedBatchSequences s' 7 = Some 1"
    by (simp add: full_engine_def toy_engine_def NewShakti_def toy_ext_def toy_NewMemtable_def
        NewWriteBatch_def)
  with h1 h2 show ?thesis by blast
qed

text \<open>
  C2. The claim: the periodic check rotates only when no rotation has happened yet or
  the time since the last one, \<open>now - mtLastReplace\<close>, has reached the threshold. The code
  compares \<open>mtLastReplace - now\<close>, which wraps around as soon as the clock has moved past
  the last rotation: with a last rotation on record, a clock after it, less than the
  threshold elapsed, and a threshold that is a non-negative \<open>time.Duration\<close>, the check
  rotates.
\<close>

theorem maybeReplaceMemtable_early:
  assumes "mtLastReplace s \<noteq> 0"
    and after: "unat (mtLastReplace s) < unat (NanoTime ext (nanoTimeCalls s))"
    and recent: "unat (NanoTime ext (nanoTimeCalls s)) - unat (mtLastReplace s) < unat (mtMaxReplaceTime s)"
    and dur: "unat (mtMaxReplaceTime s) < 2 ^ 63"
  shows "maybeReplaceMemtable ext s = (None, rotated ext (s\<lparr>nanoTimeCalls := Suc (nanoTimeCalls s)\<rparr>))
       \<and> memtable (snd (maybeReplaceMemtable ext s)) = next_ptr s
       \<and> mtFlushQueue (snd (maybeReplaceMemtable ext s)) =
           mtFlushQueue s @ [\<lparr>fe_memtable = Some (memtable s), ssTabInfo = None\<rparr>]"
proof -
  let ?now = "NanoTime ext (nanoTimeCalls s)"
  have "unat (mtLastReplace s - ?now) = unat (mtLastReplace s) + 2 ^ 64 - unat ?now"
    using after by (simp add: unat_sub_if_size word_size)
  moreover have "unat ?now < 2 ^ 64"
    using unsigned_less [of ?now] by simp
  ultimately have "unat (mtMaxReplaceTime s) \<le> unat (mtLastReplace s - ?now)"
    using recent dur by simp
  then have "mtMaxReplaceTime s \<le> mtLastReplace s - ?now"
    by (simp add: word_le_nat_alt)
  then have "maybeReplaceMemtable ext s = (None, rotated ext (s\<lparr>nanoTimeCalls := Suc (nanoTimeCalls s)\<rparr>))"
    using replaceMemtable0_active [of ext "s\<lparr>nanoTimeCalls := Suc (nanoTimeCalls s)\<rparr>"]
    by (simp add: maybeReplaceMemtable_def replaceMemtable_def Let_def)
  then show ?thesis by (simp add: rotated_def)
qed

theorem maybeReplaceMemtable_early_witness:
  "mtLastReplace (toy_engine\<lparr>mtLastReplace := 900\<rparr>) = 900
   \<and> NanoTime toy_ext (nanoTimeCalls (toy_engine\<lparr>mtLastReplace := 900\<rparr>)) = 1000
   \<and> mtMaxReplaceTime (toy_engine\<lparr>mtLastReplace := 900\<rparr>) = 1000
   \<and> memtable (toy_engine\<lparr>mtLastReplace := 900\<rparr>) = 0
   \<and> memtable (snd (maybeReplaceMemtable toy_ext (toy_engine\<lparr>mtLastReplace := 900\<rparr>))) = 1
   \<and> mtFlushQueue (snd (maybeReplaceMemtable toy_ext (toy_engine\<lparr>mtLastReplace := 900\<rparr>))) =
       [\<lparr>fe_memtable = Some 0, ssTabInfo = None\<rparr>]"
proof -
  let ?s = "toy_engine\<lparr>mtLastReplace := 900\<rparr>"
  have v: "NanoTime toy_ext 0 = 1000"
    by (simp add: toy_ext_def)
  have h1: "mtLastReplace ?s \<noteq> 0" by simp
  have h2: "unat (mtLastReplace ?s) < unat (NanoTime toy_ext (nanoTimeCalls ?s))"
    by (simp add: v toy_engine_fields)
  have h3: "unat (NanoTime toy_ext (nanoTimeCalls ?s)) - unat (mtLastReplace ?s) < unat (mtMaxReplaceTime ?s)"
    by (simp add: v toy_engine_fields)
  have h4: "unat (mtMaxReplaceTime ?s) < 2 ^ 63"
    by (simp add: toy_engine_fields)
  from maybeReplaceMemtable_early [OF h1 h2 h3 h4]
  have c: "memtable (snd (maybeReplaceMemtable toy_ext ?s)) = next_ptr ?s"
    and d: "mtFlushQueue (snd (maybeReplaceMemtable toy_ext ?s)) =
              mtFlushQueue ?s @ [\<lparr>fe_memtable = Some (memtable ?s), ssTabInfo = None\<rparr>]"
    by blast+
  show ?thesis
    unfolding c d by (simp add: v toy_engine_fields)
qed

text \<open>
  C4. A batch with a sequence number other than -1 that is not above the sequence
  recorded for its processor: \<open>Write\<close> returns no error, and the engine and the batch are
  as they were (no dedup entry appended, no memtable written, the dedup map unchanged).
\<close>

theorem Write_duplicate:
  assumes "SequenceNum batch \<noteq> - 1"
    and "lastCommittedBatchSequences s (ProcessorID batch) = Some lastSeq"
    and "sint (SequenceNum batch) \<le> sint lastSeq"
  shows "Write ext s batch = Some (None, s, batch)"
  using assms by (subst Write.simps) (simp add: checkDedupCache_def)

theorem Write_duplicate_witness:
  "Write toy_ext (toy_engine\<lparr>lastCommittedBatchSequences := (\<lambda>p. None)(7 := Some 10)\<rparr>)
     (NewWriteBatch 7 10 [kv_a])
   = Some (None, toy_engine\<lparr>lastCommittedBatchSequences := (\<lambda>p. None)(7 := Some 10)\<rparr>,
           NewWriteBatch 7 10 [kv_a])"
  using Write_duplicate [of "NewWriteBatch 7 10 [kv_a]"
      "toy_engine\<lparr>lastCommittedBatchSequences := (\<lambda>p. None)(7 := Some 10)\<rparr>" 10 toy_ext]
  by (simp add: NewWriteBatch_def)

text \<open>
  C8. A rotation called with a memtable that is not the active one returns no error and
  leaves the engine as it was: the active memtable, the registered iterators, the flush
  queue, the time of the last rotation and the signals on the flush channel included.
\<close>

theorem replaceMemtable0_stale:
  assumes "mt \<noteq> memtable s"
  shows "replaceMemtable0 ext mt s = (None, s) \<and> replaceMemtable ext mt s = (None, s)"
  using assms by (simp add: replaceMemtable0_def replaceMemtable_def)

theorem replaceMemtable0_stale_witness:
  "(1::nat) \<noteq> memtable toy_engine \<and> replaceMemtable0 toy_ext 1 toy_engine = (None, toy_engine)
   \<and> replaceMemtable toy_ext 1 toy_engine = (None, toy_engine)"
  using replaceMemtable0_stale [of 1 toy_engine toy_ext]
  by (simp add: toy_engine_def NewShakti_def)


text \<open>
  C9. The claim has the dedup entry appended to every batch with a sequence number other
  than -1 that passes the dedup check. \<open>putDedupEntry\<close> appends nothing when
  \<open>DisableBatchSequenceInsertion\<close> is set: on an engine configured so, a write that fails
  in the memtable returns the batch as it was submitted.
\<close>

theorem Write_error_entry_counterexample:
  "\<not> (\<forall>(ext :: ToyMemtable externals) s batch ok e m'.
        SequenceNum batch \<noteq> - 1 \<longrightarrow> fst (checkDedupCache s batch) \<longrightarrow>
        mt_Write ext (memtables s (memtable s)) (Batch (putDedupEntry ext s batch)) = (ok, Some e, m') \<longrightarrow>
        (\<exists>s'. Write ext s batch =
                 Some (Some e, s',
                       batch\<lparr>Batch := Batch batch @
                         [\<lparr>Key = createDedupKey ext s (ProcessorID batch),
                           Value = AppendUint64ToBufferLE None (SequenceNum batch)\<rparr>]\<rparr>)
               \<and> lastCommittedBatchSequences s' (ProcessorID batch) = Some (SequenceNum batch)))"
proof
  assume a: "\<forall>(ext :: ToyMemtable externals) s batch ok e m'.
        SequenceNum batch \<noteq> - 1 \<longrightarrow> fst (checkDedupCache s batch) \<longrightarrow>
        mt_Write ext (memtables s (memtable s)) (Batch (putDedupEntry ext s batch)) = (ok, Some e, m') \<longrightarrow>
        (\<exists>s'. Write ext s batch =
                 Some (Some e, s',
                       batch\<lparr>Batch := Batch batch @
                         [\<lparr>Key = createDedupKey ext s (ProcessorID batch),
                           Value = AppendUint64ToBufferLE None (SequenceNum batch)\<rparr>]\<rparr>)
               \<and> lastCommittedBatchSequences s' (ProcessorID batch) = Some (SequenceNum batch))"
  let ?b = "NewWriteBatch 7 1 [kv_a]"
  have h1: "SequenceNum ?b \<noteq> - 1" by (simp add: NewWriteBatch_def)
  have h2: "fst (checkDedupCache engine_no_rows ?b)"
    by (simp add: checkDedupCache_def NewWriteBatch_def engine_no_rows_def NewShakti_def)
  have p: "putDedupEntry failing_ext engine_no_rows ?b = ?b"
    by (simp add: putDedupEntry_def engine_no_rows_def NewShakti_def)
  have h3: "mt_Write failing_ext (memtables engine_no_rows (memtable engine_no_rows))
              (Batch (putDedupEntry failing_ext engine_no_rows ?b))
            = (False, Some (Error ''write failed''), memtables engine_no_rows (memtable engine_no_rows))"
    by (simp add: failing_ext_def)
  from a h1 h2 h3 obtain s' where
    w: "Write failing_ext engine_no_rows ?b =
          Some (Some (Error ''write failed''), s',
                ?b\<lparr>Batch := Batch ?b @
                  [\<lparr>Key = createDedupKey failing_ext engine_no_rows (ProcessorID ?b),
                    Value = AppendUint64ToBufferLE None (SequenceNum ?b)\<rparr>]\<rparr>)"
    by blast
  have "\<exists>s''. Write failing_ext engine_no_rows ?b = Some (Some (Error ''write failed''), s'', ?b)"
    using Write_error_result(1) [OF h1 h2 h3] unfolding p by blast
  with w have "?b\<lparr>Batch := Batch ?b @
                  [\<lparr>Key = createDedupKey failing_ext engine_no_rows (ProcessorID ?b),
                    Value = AppendUint64ToBufferLE None (SequenceNum ?b)\<rparr>]\<rparr> = ?b"
    by auto
  then have "Batch (?b\<lparr>Batch := Batch ?b @
                  [\<lparr>Key = createDedupKey failing_ext engine_no_rows (ProcessorID ?b),
                    Value = AppendUint64ToBufferLE None (SequenceNum ?b)\<rparr>]\<rparr>) = Batch ?b"
    by (rule arg_cong)
  then show False by simp
qed

text \<open>
  C9, amended. For a batch with a sequence number other than -1 that passes the dedup
  check, whose memtable write returns an error: \<open>Write\<close> returns that error; the dedup map
  holds the batch's sequence number for its processor; the batch is as \<open>putDedupEntry\<close>
  left it, with the dedup entry appended unless the insertion is disabled by the
  configuration; and a second \<open>Write\<close> of that batch returns success and changes nothing.
\<close>

theorem Write_error_not_rolled_back:
  assumes seq: "SequenceNum batch \<noteq> - 1"
    and pass: "fst (checkDedupCache s batch)"
    and err: "mt_Write ext (memtables s (memtable s)) (Batch (putDedupEntry ext s batch)) = (ok, Some e, m')"
  shows "\<exists>s'. Write ext s batch = Some (Some e, s', putDedupEntry ext s batch)
           \<and> lastCommittedBatchSequences s' (ProcessorID batch) = Some (SequenceNum batch)
           \<and> Batch (putDedupEntry ext s batch) =
               (if DisableBatchSequenceInsertion (conf s) then Batch batch
                else Batch batch @
                       [\<lparr>Key = createDedupKey ext s (ProcessorID batch),
                         Value = AppendUint64ToBufferLE None (SequenceNum batch)\<rparr>])
           \<and> Write ext s' (putDedupEntry ext s batch) = Some (None, s', putDedupEntry ext s batch)"
proof -
  let ?s2 = "s\<lparr>lastCommittedBatchSequences :=
                 (lastCommittedBatchSequences s)(ProcessorID batch := Some (SequenceNum batch)),
               memtables := (memtables s)(memtable s := m')\<rparr>"
  have app: "Batch (putDedupEntry ext s batch) =
               (if DisableBatchSequenceInsertion (conf s) then Batch batch
                else Batch batch @
                       [\<lparr>Key = createDedupKey ext s (ProcessorID batch),
                         Value = AppendUint64ToBufferLE None (SequenceNum batch)\<rparr>])"
    by (simp add: putDedupEntry_def Let_def)
  show ?thesis
    using Write_error_result [OF seq pass err] app by (intro exI [of _ ?s2]) simp
qed

theorem Write_error_not_rolled_back_witness:
  "SequenceNum (NewWriteBatch 7 1 [kv_a]) \<noteq> - 1
   \<and> fst (checkDedupCache failing_engine (NewWriteBatch 7 1 [kv_a]))
   \<and> (\<exists>s'. Write failing_ext failing_engine (NewWriteBatch 7 1 [kv_a])
              = Some (Some (Error ''write failed''), s',
                      putDedupEntry failing_ext failing_engine (NewWriteBatch 7 1 [kv_a]))
          \<and> lastCommittedBatchSequences s' 7 = Some 1
          \<and> length (Batch (putDedupEntry failing_ext failing_engine (NewWriteBatch 7 1 [kv_a]))) = 2
          \<and> Write failing_ext s' (putDedupEntry failing_ext failing_engine (NewWriteBatch 7 1 [kv_a]))
              = Some (None, s', putDedupEntry failing_ext failing_engine (NewWriteBatch 7 1 [kv_a])))"
proof -
  let ?b = "NewWriteBatch 7 1 [kv_a]"
  have h1: "SequenceNum ?b \<noteq> - 1" by (simp add: NewWriteBatch_def)
  have h2: "fst (checkDedupCache failing_engine ?b)"
    by (simp add: checkDedupCache_def NewWriteBatch_def failing_engine_def NewShakti_def)
  have h3: "mt_Write failing_ext (memtables failing_engine (memtable failing_engine))
              (Batch (putDedupEntry failing_ext failing_engine ?b))
            = (False, Some (Error ''write failed''), memtables failing_engine (memtable failing_engine))"
    by (simp add: failing_ext_def)
  have h4: "\<not> DisableBatchSequenceInsertion (conf failing_engine)"
    by (simp add: failing_engine_def NewShakti_def toy_conf_def)
  from Write_error_not_rolled_back [OF h1 h2 h3] obtain s' where
    "Write failing_ext failing_engine ?b = Some (Some (Error ''write failed''), s', putDedupEntry failing_ext failing_engine ?b)"
    "lastCommittedBatchSequences s' (ProcessorID ?b) = Some (SequenceNum ?b)"
    "Batch (putDedupEntry failing_ext failing_engine ?b) =
               (if DisableBatchSequenceInsertion (conf failing_engine) then Batch ?b
                else Batch ?b @
                       [\<lparr>Key = createDedupKey failing_ext failing_engine (ProcessorID ?b),
                         Value = AppendUint64ToBufferLE None (SequenceNum ?b)\<rparr>])"
    "Write failing_ext s' (putDedupEntry failing_ext failing_engine ?b)
       = Some (None, s', putDedupEntry failing_ext failing_engine ?b)"
    by blast
  then have "Write failing_ext failing_engine ?b
              = Some (Some (Error ''write failed''), s', putDedupEntry failing_ext failing_engine ?b)
          \<and> lastCommittedBatchSequences s' 7 = Some 1
          \<and> length (Batch (putDedupEntry failing_ext failing_engine ?b)) = 2
          \<and> Write failing_ext s' (putDedupEntry failing_ext failing_engine ?b)
              = Some (None, s', putDedupEntry failing_ext failing_engine ?b)"
    using h4 by (simp add: NewWriteBatch_def)
  with h1 h2 show ?thesis by blast
qed

text \<open>
  C10. A batch with the sequence number -1, on an engine whose configuration does not
  disable the insertion: the dedup check passes without reading or changing the dedup
  map; \<open>putDedupEntry\<close> appends the row of the processor's dedup key whose value is the
  little-endian encoding of \<open>2^64 - 1\<close>, eight bytes \<open>0xFF\<close>; whenever \<open>Write\<close> returns, the
  dedup map is as before and the batch ends with that row; and when the memtable takes
  the batch, it is the batch with the row that it takes.
\<close>

theorem Write_bypass:
  assumes seq: "SequenceNum batch = - 1"
    and en: "\<not> DisableBatchSequenceInsertion (conf s)"
  shows "checkDedupCache s batch = (True, s)
     \<and> putDedupEntry ext s batch =
         batch\<lparr>Batch := Batch batch @
           [\<lparr>Key = createDedupKey ext s (ProcessorID batch), Value = AppendUint64ToBufferLE None (2 ^ 64 - 1)\<rparr>]\<rparr>
     \<and> AppendUint64ToBufferLE None (2 ^ 64 - 1) = Some [255, 255, 255, 255, 255, 255, 255, 255]
     \<and> (\<forall>r. Write ext s batch = Some r \<longrightarrow>
           lastCommittedBatchSequences (fst (snd r)) = lastCommittedBatchSequences s
           \<and> (\<exists>n. Batch (snd (snd r)) =
                  Batch batch @ replicate (Suc n)
                    \<lparr>Key = createDedupKey ext s (ProcessorID batch),
                     Value = Some [255, 255, 255, 255, 255, 255, 255, 255]\<rparr>))
     \<and> (\<forall>m'. mt_Write ext (memtables s (memtable s))
                (Batch batch @ [\<lparr>Key = createDedupKey ext s (ProcessorID batch),
                                 Value = Some [255, 255, 255, 255, 255, 255, 255, 255]\<rparr>])
              = (True, None, m') \<longrightarrow>
           Write ext s batch =
             Some (None, s\<lparr>memtables := (memtables s)(memtable s := m')\<rparr>,
                   batch\<lparr>Batch := Batch batch @
                     [\<lparr>Key = createDedupKey ext s (ProcessorID batch),
                       Value = Some [255, 255, 255, 255, 255, 255, 255, 255]\<rparr>]\<rparr>))"
proof -
  let ?row = "\<lparr>Key = createDedupKey ext s (ProcessorID batch),
               Value = Some [255, 255, 255, 255, 255, 255, 255, 255]\<rparr>"
  have v: "AppendUint64ToBufferLE None (2 ^ 64 - 1) = Some [255, 255, 255, 255, 255, 255, 255, 255]"
    using le_u64_max by (simp add: AppendUint64ToBufferLE_def bytes_of_def)
  have c: "checkDedupCache s batch = (True, s)"
    using seq by (simp add: checkDedupCache_def)
  have p: "putDedupEntry ext s batch = batch\<lparr>Batch := Batch batch @ [?row]\<rparr>"
    using seq en
    by (simp add: putDedupEntry_def AppendUint64ToBufferLE_def bytes_of_def le_u64_minus_one Let_def)
  have r: "\<forall>r. Write ext s batch = Some r \<longrightarrow>
           lastCommittedBatchSequences (fst (snd r)) = lastCommittedBatchSequences s
           \<and> (\<exists>n. Batch (snd (snd r)) = Batch batch @ replicate (Suc n) ?row)"
    using Write_bypass_returns [OF _ seq en] by blast
  have a: "Write ext s batch =
             Some (None, s\<lparr>memtables := (memtables s)(memtable s := m')\<rparr>, batch\<lparr>Batch := Batch batch @ [?row]\<rparr>)"
    if "mt_Write ext (memtables s (memtable s)) (Batch batch @ [?row]) = (True, None, m')" for m'
    using that by (subst Write.simps) (simp add: c p doWrite_def Let_def)
  show ?thesis
    using c p r a unfolding v by blast
qed

theorem Write_bypass_witness:
  "SequenceNum (NewWriteBatch 7 (- 1) [kv_a]) = - 1
   \<and> Write toy_ext toy_engine (NewWriteBatch 7 (- 1) [kv_a]) =
       Some (None,
             toy_engine\<lparr>memtables := (memtables toy_engine)
               (0 := \<lparr>capacity = 64,
                      entries = [kv_a, \<lparr>Key = createDedupKey toy_ext toy_engine 7,
                                       Value = Some [255, 255, 255, 255, 255, 255, 255, 255]\<rparr>]\<rparr>)\<rparr>,
             \<lparr>ProcessorID = 7, SequenceNum = - 1,
              Batch = [kv_a, \<lparr>Key = createDedupKey toy_ext toy_engine 7,
                               Value = Some [255, 255, 255, 255, 255, 255, 255, 255]\<rparr>]\<rparr>)
   \<and> lastCommittedBatchSequences toy_engine 7 = None"
proof -
  let ?b = "NewWriteBatch 7 (- 1) [kv_a]"
  let ?row = "\<lparr>Key = createDedupKey toy_ext toy_engine (ProcessorID ?b),
               Value = Some [255, 255, 255, 255, 255, 255, 255, 255]\<rparr>"
  have h1: "SequenceNum ?b = - 1" by (simp add: NewWriteBatch_def)
  have h2: "\<not> DisableBatchSequenceInsertion (conf toy_engine)"
    by (simp add: toy_engine_fields toy_conf_def)
  have w: "mt_Write toy_ext (memtables toy_engine (memtable toy_engine)) (Batch ?b @ [?row])
             = (True, None, \<lparr>capacity = 64, entries = Batch ?b @ [?row]\<rparr>)"
    by (simp add: toy_ext_fields toy_Write_def toy_engine_fields kv_size_def kv_a_def NewWriteBatch_def
        createDedupKey_def AppendUint64ToBufferBE_def bytes_of_def length_be_u64)
  from Write_bypass [OF h1 h2, of toy_ext] w
  have "Write toy_ext toy_engine ?b =
          Some (None, toy_engine\<lparr>memtables := (memtables toy_engine)
                  (memtable toy_engine := \<lparr>capacity = 64, entries = Batch ?b @ [?row]\<rparr>)\<rparr>,
                ?b\<lparr>Batch := Batch ?b @ [?row]\<rparr>)"
    by blast
  then show ?thesis
    by (simp add: NewWriteBatch_def toy_engine_fields)
qed

subsection \<open>The flush pipeline: C3\<close>


lemma pending_append: "pending (xs @ ys) = pending xs @ pending ys"
  by (induction xs) (auto split: option.splits)

lemma pending_cong:
  "map fe_memtable q' = map fe_memtable q \<Longrightarrow> pending q' = pending q"
proof (induction q arbitrary: q')
  case Nil
  then show ?case by simp
next
  case (Cons fe q)
  then obtain fe' q0 where q': "q' = fe' # q0" by (cases q') auto
  with Cons.prems have e: "fe_memtable fe' = fe_memtable fe" "map fe_memtable q0 = map fe_memtable q"
    by auto
  have "pending q0 = pending q" by (rule Cons.IH [OF e(2)])
  then show ?case unfolding q' pending.simps e(1) by (rule arg_cong)
qed

lemma drain_stop:
  assumes "\<not> (i < bnd \<and> i < length (mtFlushQueue s) \<and> ssTabInfo (mtFlushQueue s ! i) \<noteq> None
                \<and> ApplyChanges_err ext (controller s) (registration (the (ssTabInfo (mtFlushQueue s ! i)))) = None)"
  shows "drain ext bnd i s = Drained i s \<or> drain ext bnd i s = DrainReturn s \<or> drain ext bnd i s = DrainPanic s"
  using assms by (subst (1 2 3) drain.simps) (auto simp: Let_def split: option.splits)

lemma drain_go:
  assumes "i < bnd" "i < length (mtFlushQueue s)" "ssTabInfo (mtFlushQueue s ! i) = Some tabInfo"
    "ApplyChanges_err ext (controller s) (registration tabInfo) = None"
    "fe_memtable (mtFlushQueue s ! i) = Some m"
  shows "drain ext bnd i s =
           drain ext bnd (Suc i)
             (s\<lparr>controller := controller s @ [registration tabInfo],
                committedCalls := committedCalls s @ [m],
                mtFlushQueue := (mtFlushQueue s)[i := (mtFlushQueue s ! i)\<lparr>fe_memtable := None\<rparr>]\<rparr>)"
  using assms by (subst drain.simps) (simp add: Let_def)


lemma drain_post_refl: "length (controller s) = length (committedCalls s) \<Longrightarrow> drain_post s s"
  by (simp add: drain_post_def)

lemma drain_ok_trans: "drain_post s s2 \<Longrightarrow> drain_ok s2 r \<Longrightarrow> drain_ok s r"
  by (cases r) (simp_all add: drain_post_def)

lemma drain_inv:
  assumes "pending (take i (mtFlushQueue s)) = []"
    and "\<forall>fe \<in> set (drop i (mtFlushQueue s)). fe_memtable fe \<noteq> None"
    and "length (controller s) = length (committedCalls s)"
  shows "drain_ok s (drain ext bnd i s)"
  using assms
proof (induction ext bnd i s rule: drain.induct)
  case (1 ext bnd i s)
  let ?q = "mtFlushQueue s"
  show ?case
  proof (cases "i < bnd \<and> i < length ?q \<and> ssTabInfo (?q ! i) \<noteq> None
                \<and> ApplyChanges_err ext (controller s) (registration (the (ssTabInfo (?q ! i)))) = None")
    case False
    from drain_stop [OF False] show ?thesis
      using "1.prems" drain_post_refl [OF "1.prems"(3)] by auto
  next
    case True
    then obtain tabInfo where ti: "ssTabInfo (?q ! i) = Some tabInfo" by auto
    have ib: "i < bnd" and il: "i < length ?q" and nl: "\<not> length ?q \<le> i"
      and ac: "ApplyChanges_err ext (controller s) (registration tabInfo) = None"
      using True ti by simp_all
    have dq: "drop i ?q = ?q ! i # drop (Suc i) ?q"
      using il by (rule Cons_nth_drop_Suc [symmetric])
    then have "?q ! i \<in> set (drop i ?q)" by simp
    with "1.prems"(2) obtain m where m: "fe_memtable (?q ! i) = Some m" by auto
    define s2 where "s2 = s\<lparr>controller := controller s @ [registration tabInfo],
                committedCalls := committedCalls s @ [m],
                mtFlushQueue := ?q[i := (?q ! i)\<lparr>fe_memtable := None\<rparr>]\<rparr>"
    have d: "drain ext bnd i s = drain ext bnd (Suc i) s2"
      unfolding s2_def using ib il ti ac m by (rule drain_go)
    have q2: "mtFlushQueue s2 = take i ?q @ (?q ! i)\<lparr>fe_memtable := None\<rparr> # drop (Suc i) ?q"
      using il by (simp add: s2_def upd_conv_take_nth_drop)
    have qs: "?q = take i ?q @ ?q ! i # drop (Suc i) ?q"
      using il by (rule id_take_nth_drop)
    have t2: "take (Suc i) (mtFlushQueue s2) = take i ?q @ [(?q ! i)\<lparr>fe_memtable := None\<rparr>]"
      using il by (simp add: q2)
    have d2: "drop (Suc i) (mtFlushQueue s2) = drop (Suc i) ?q"
      using il by (simp add: q2)
    have p1: "pending (take (Suc i) (mtFlushQueue s2)) = []"
      using "1.prems"(1) by (simp add: t2 pending_append)
    have p2: "\<forall>fe \<in> set (drop (Suc i) (mtFlushQueue s2)). fe_memtable fe \<noteq> None"
      using "1.prems"(2) by (simp add: d2 dq)
    have p3: "length (controller s2) = length (committedCalls s2)"
      using "1.prems"(3) by (simp add: s2_def)
    have "pending ?q = pending (take i ?q) @ pending (?q ! i # drop (Suc i) ?q)"
      by (subst qs) (simp only: pending_append)
    then have pq: "pending ?q = m # pending (drop (Suc i) ?q)"
      using "1.prems"(1) m by simp
    have pq2: "pending (mtFlushQueue s2) = pending (drop (Suc i) ?q)"
      using "1.prems"(1) by (simp add: q2 pending_append)
    have post: "drain_post s s2"
      using "1.prems"(3) by (simp add: drain_post_def pq pq2) (simp add: s2_def)
    have ih: "drain_ok s2 (drain ext bnd (Suc i) s2)"
      using "1.IH" [OF ib nl refl ti ac refl m] p1 p2 p3 by (simp add: s2_def)
    show ?thesis
      unfolding d using post ih by (rule drain_ok_trans)
  qed
qed


text \<open>
  One run of the registration loop, and so one turn of the run loop, registers the
  entries of a prefix of the queue, in queue order: the registrations it adds are those
  of the first \<open>k\<close> entries (each from the \<open>ssTabInfo\<close> of its entry), and the calls of
  \<open>Committed\<close> it adds are on the memtables of the same entries.
\<close>

lemma drain_prefix:
  assumes "\<forall>fe \<in> set (drop i (mtFlushQueue s)). fe_memtable fe \<noteq> None"
  shows "\<exists>k. controller (drain_state (drain ext bnd i s)) =
              controller s @ map (\<lambda>fe. registration (the (ssTabInfo fe))) (take k (drop i (mtFlushQueue s)))
           \<and> committedCalls (drain_state (drain ext bnd i s)) =
              committedCalls s @ map (\<lambda>fe. the (fe_memtable fe)) (take k (drop i (mtFlushQueue s)))
           \<and> (\<forall>fe \<in> set (take k (drop i (mtFlushQueue s))). ssTabInfo fe \<noteq> None)
           \<and> (\<forall>j s'. drain ext bnd i s = Drained j s' \<longrightarrow> j = i + k)"
  using assms
proof (induction ext bnd i s rule: drain.induct)
  case (1 ext bnd i s)
  let ?q = "mtFlushQueue s"
  show ?case
  proof (cases "i < bnd \<and> i < length ?q \<and> ssTabInfo (?q ! i) \<noteq> None
                \<and> ApplyChanges_err ext (controller s) (registration (the (ssTabInfo (?q ! i)))) = None")
    case False
    from drain_stop [OF False] have "drain_state (drain ext bnd i s) = s"
      and "\<forall>j s'. drain ext bnd i s = Drained j s' \<longrightarrow> j = i"
      by auto
    then show ?thesis by (intro exI [of _ 0]) simp
  next
    case True
    then obtain tabInfo where ti: "ssTabInfo (?q ! i) = Some tabInfo" by auto
    have ib: "i < bnd" and il: "i < length ?q" and nl: "\<not> length ?q \<le> i"
      and ac: "ApplyChanges_err ext (controller s) (registration tabInfo) = None"
      using True ti by simp_all
    have dq: "drop i ?q = ?q ! i # drop (Suc i) ?q"
      using il by (rule Cons_nth_drop_Suc [symmetric])
    then have "?q ! i \<in> set (drop i ?q)" by simp
    with "1.prems" obtain m where m: "fe_memtable (?q ! i) = Some m" by auto
    define s2 where "s2 = s\<lparr>controller := controller s @ [registration tabInfo],
                committedCalls := committedCalls s @ [m],
                mtFlushQueue := ?q[i := (?q ! i)\<lparr>fe_memtable := None\<rparr>]\<rparr>"
    have d: "drain ext bnd i s = drain ext bnd (Suc i) s2"
      unfolding s2_def using ib il ti ac m by (rule drain_go)
    have d2: "drop (Suc i) (mtFlushQueue s2) = drop (Suc i) ?q"
      by (simp add: s2_def)
    have p2: "\<forall>fe \<in> set (drop (Suc i) (mtFlushQueue s2)). fe_memtable fe \<noteq> None"
      using "1.prems" by (simp add: d2 dq)
    have "\<exists>k. controller (drain_state (drain ext bnd (Suc i) s2)) =
              controller s2 @ map (\<lambda>fe. registration (the (ssTabInfo fe))) (take k (drop (Suc i) (mtFlushQueue s2)))
           \<and> committedCalls (drain_state (drain ext bnd (Suc i) s2)) =
              committedCalls s2 @ map (\<lambda>fe. the (fe_memtable fe)) (take k (drop (Suc i) (mtFlushQueue s2)))
           \<and> (\<forall>fe \<in> set (take k (drop (Suc i) (mtFlushQueue s2))). ssTabInfo fe \<noteq> None)
           \<and> (\<forall>j s'. drain ext bnd (Suc i) s2 = Drained j s' \<longrightarrow> j = Suc i + k)"
      using "1.IH" [OF ib nl refl ti ac refl m] p2 by (simp add: s2_def)
    then obtain k where
      a: "controller (drain_state (drain ext bnd (Suc i) s2)) =
              controller s2 @ map (\<lambda>fe. registration (the (ssTabInfo fe))) (take k (drop (Suc i) ?q))"
      and b: "committedCalls (drain_state (drain ext bnd (Suc i) s2)) =
              committedCalls s2 @ map (\<lambda>fe. the (fe_memtable fe)) (take k (drop (Suc i) ?q))"
      and c: "\<forall>fe \<in> set (take k (drop (Suc i) ?q)). ssTabInfo fe \<noteq> None"
      and e: "\<forall>j s'. drain ext bnd (Suc i) s2 = Drained j s' \<longrightarrow> j = Suc i + k"
      unfolding d2 by blast
    have t: "take (Suc k) (drop i ?q) = ?q ! i # take k (drop (Suc i) ?q)"
      by (subst dq) simp
    show ?thesis
      unfolding d
      by (rule exI [of _ "Suc k"]) (use a b c e ti m in \<open>simp add: t s2_def\<close>)
  qed
qed

lemma turn_registers_prefix:
  assumes some: "\<forall>fe \<in> set (mtFlushQueue s). fe_memtable fe \<noteq> None"
    and turn: "mtFlushRunLoop_turn ext p s = (st, p', s', started)"
  shows "\<exists>k. controller s' =
              controller s @ map (\<lambda>fe. registration (the (ssTabInfo fe))) (take k (mtFlushQueue s))
           \<and> committedCalls s' =
              committedCalls s @ map (\<lambda>fe. the (fe_memtable fe)) (take k (mtFlushQueue s))
           \<and> (\<forall>fe \<in> set (take k (mtFlushQueue s)). ssTabInfo fe \<noteq> None)"
proof -
  from drain_prefix [of 0 s ext p] some obtain k where
    a: "controller (drain_state (drain ext p 0 s)) =
              controller s @ map (\<lambda>fe. registration (the (ssTabInfo fe))) (take k (mtFlushQueue s))"
    and b: "committedCalls (drain_state (drain ext p 0 s)) =
              committedCalls s @ map (\<lambda>fe. the (fe_memtable fe)) (take k (mtFlushQueue s))"
    and c: "\<forall>fe \<in> set (take k (mtFlushQueue s)). ssTabInfo fe \<noteq> None"
    by auto
  have "controller s' = controller (drain_state (drain ext p 0 s))
      \<and> committedCalls s' = committedCalls (drain_state (drain ext p 0 s))"
    using turn
    by (cases "drain ext p 0 s")
      (auto simp: mtFlushRunLoop_turn_def Let_def split: if_splits)
  with a b c show ?thesis by (intro exI [of _ k]) simp
qed

lemma turn_inv:
  assumes some: "\<forall>fe \<in> set (mtFlushQueue s). fe_memtable fe \<noteq> None"
    and len: "length (controller s) = length (committedCalls s)"
    and turn: "mtFlushRunLoop_turn ext p s = (st, p', s', started)"
  shows "drain_post s s'"
    and "st = Running \<Longrightarrow> \<forall>fe \<in> set (mtFlushQueue s'). fe_memtable fe \<noteq> None"
proof -
  have ok: "drain_ok s (drain ext p 0 s)"
    using some len by (intro drain_inv) simp_all
  have "drain_post s s' \<and> (st = Running \<longrightarrow> (\<forall>fe \<in> set (mtFlushQueue s'). fe_memtable fe \<noteq> None))"
  proof (cases "drain ext p 0 s")
    case (DrainPanic s1)
    with ok turn show ?thesis by (simp add: mtFlushRunLoop_turn_def)
  next
    case (DrainReturn s1)
    with ok turn show ?thesis by (simp add: mtFlushRunLoop_turn_def)
  next
    case (Drained j s1)
    with ok have post: "drain_post s s1" and none: "pending (take j (mtFlushQueue s1)) = []"
      and rest: "\<forall>fe \<in> set (drop j (mtFlushQueue s1)). fe_memtable fe \<noteq> None"
      by simp_all
    have "pending (mtFlushQueue s1) = pending (take j (mtFlushQueue s1) @ drop j (mtFlushQueue s1))"
      by simp
    then have pd: "pending (drop j (mtFlushQueue s1)) = pending (mtFlushQueue s1)"
      using none by (simp only: pending_append) simp
    define s2 where "s2 = (if 0 < j then s1\<lparr>mtFlushQueue := drop j (mtFlushQueue s1)\<rparr> else s1)"
    have q2: "mtFlushQueue s2 = drop j (mtFlushQueue s1)"
      by (simp add: s2_def)
    have post2: "drain_post s s2"
      using post pd by (simp add: drain_post_def s2_def)
    have s': "s' = s2"
      using turn Drained by (simp add: mtFlushRunLoop_turn_def s2_def Let_def split: if_splits)
    show ?thesis
      using post2 rest by (simp add: s' q2)
  qed
  then show "drain_post s s'"
    and "st = Running \<Longrightarrow> \<forall>fe \<in> set (mtFlushQueue s'). fe_memtable fe \<noteq> None"
    by simp_all
qed

lemma pending_set_info:
  "pending (q[idx := (q ! idx)\<lparr>ssTabInfo := x\<rparr>]) = pending q"
proof (rule pending_cong)
  show "map fe_memtable (q[idx := (q ! idx)\<lparr>ssTabInfo := x\<rparr>]) = map fe_memtable q"
    by (cases "idx < length q") (simp_all add: map_update list_update_same_conv list_update_beyond not_less)
qed

lemma set_info_some:
  assumes "\<forall>fe \<in> set q. fe_memtable fe \<noteq> None"
  shows "\<forall>fe \<in> set (q[idx := (q ! idx)\<lparr>ssTabInfo := x\<rparr>]). fe_memtable fe \<noteq> None"
proof (cases "idx < length q")
  case False
  then show ?thesis using assms by (simp add: list_update_beyond not_less)
next
  case True
  then have "q ! idx \<in> set q" by simp
  with assms have "fe_memtable ((q ! idx)\<lparr>ssTabInfo := x\<rparr>) \<noteq> None" by simp
  moreover have "set (q[idx := (q ! idx)\<lparr>ssTabInfo := x\<rparr>]) \<subseteq> insert ((q ! idx)\<lparr>ssTabInfo := x\<rparr>) (set q)"
    by (rule set_update_subset_insert)
  ultimately show ?thesis using assms by blast
qed

text \<open>What a call of the rotation does to the flush queue.\<close>

lemma rotation_enqueues:
  "mtFlushQueue (snd (replaceMemtable ext mt s)) =
     mtFlushQueue s @ (if mt = memtable s then [\<lparr>fe_memtable = Some mt, ssTabInfo = None\<rparr>] else [])"
  by (simp add: replaceMemtable_cases rotated_def)

lemma step_inv:
  assumes "pipeline_inv st"
  shows "pipeline_inv (step ext ev st)"
    and "logged (step ext ev st) = logged st @ enqueued ext [ev] st"
proof -
  obtain l s where st: "st = (l, s)" by (cases st)
  have inv: "status l = Running \<Longrightarrow> \<forall>fe \<in> set (mtFlushQueue s). fe_memtable fe \<noteq> None"
    and len: "length (controller s) = length (committedCalls s)"
    using assms by (simp_all add: pipeline_inv_def st)
  have "pipeline_inv (step ext ev (l, s)) \<and> logged (step ext ev (l, s)) = logged (l, s) @ enqueued ext [ev] (l, s)"
  proof (cases "status l = Panicked")
    case True
    then show ?thesis
      using assms by (cases ev) (simp_all add: st)
  next
    case np: False
    show ?thesis
    proof (cases ev)
      case (Rotate mt)
      show ?thesis
        using np inv len
        by (simp add: Rotate replaceMemtable_cases pipeline_inv_def logged_def rotated_def pending_append)
    next
      case (Flush idx built)
      show ?thesis
      proof (cases built)
        case (Inl err)
        then show ?thesis
          using np assms by (simp add: Flush flushMemtable_def st)
      next
        case (Inr r)
        obtain info sz n where r: "r = (info, sz, n)" by (cases r)
        show ?thesis
          using np inv len set_info_some [of "mtFlushQueue s" idx "Some info"]
          by (simp add: Flush Inr r flushMemtable_def pipeline_inv_def logged_def pending_set_info)
      qed
    next
      case LoopTurn
      show ?thesis
      proof (cases "status l = Running \<and> 0 < mtFlushChan s")
        case False
        then show ?thesis
          using np assms by (auto simp: LoopTurn st)
      next
        case True
        let ?s0 = "s\<lparr>mtFlushChan := mtFlushChan s - 1\<rparr>"
        obtain st1 p1 s1 started where
          t: "mtFlushRunLoop_turn ext (pos l) ?s0 = (st1, p1, s1, started)"
          by (cases "mtFlushRunLoop_turn ext (pos l) ?s0") auto
        have some0: "\<forall>fe \<in> set (mtFlushQueue ?s0). fe_memtable fe \<noteq> None"
          using inv True by simp
        have len0: "length (controller ?s0) = length (committedCalls ?s0)"
          using len by simp
        from turn_inv [OF some0 len0 t]
        have post: "drain_post ?s0 s1"
          and keep: "st1 = Running \<Longrightarrow> \<forall>fe \<in> set (mtFlushQueue s1). fe_memtable fe \<noteq> None"
          by simp_all
        have res: "step ext ev (l, s) = (\<lparr>pos = p1, status = st1\<rparr>, s1)"
          using True np t by (simp add: LoopTurn)
        show ?thesis
          unfolding res using post keep
          by (simp add: pipeline_inv_def logged_def drain_post_def LoopTurn)
      qed
    qed
  qed
  then show "pipeline_inv (step ext ev st)"
    and "logged (step ext ev st) = logged st @ enqueued ext [ev] st"
    by (simp_all add: st)
qed

lemma run_inv:
  assumes "pipeline_inv st"
  shows "pipeline_inv (run ext evs st) \<and> logged (run ext evs st) = logged st @ enqueued ext evs st"
  using assms
proof (induction evs arbitrary: st)
  case Nil
  then show ?case by simp
next
  case (Cons ev evs)
  have i1: "pipeline_inv (step ext ev st)"
    using Cons.prems by (rule step_inv(1))
  have l1: "logged (step ext ev st) = logged st @ enqueued ext [ev] st"
    using Cons.prems by (rule step_inv(2))
  have e: "enqueued ext (ev # evs) st = enqueued ext [ev] st @ enqueued ext evs (step ext ev st)"
    by simp
  from Cons.IH [OF i1] show ?case
    unfolding e by (simp add: l1)
qed

text \<open>
  The tables in an execution. Two entries of the queue never hold the same memtable, the
  registration loop changes the queue only by taking memtables out of entries and
  dropping entries, and every step of an execution keeps \<open>tables_inv\<close>.
\<close>

lemma pending_mem: "fe \<in> set q \<Longrightarrow> fe_memtable fe = Some m \<Longrightarrow> m \<in> set (pending q)"
  by (induction q) (auto split: option.splits)

lemma pending_distinct_nth:
  "distinct (pending q) \<Longrightarrow> i < length q \<Longrightarrow> j < length q \<Longrightarrow> i \<noteq> j
     \<Longrightarrow> fe_memtable (q ! i) = Some m \<Longrightarrow> fe_memtable (q ! j) \<noteq> Some m"
proof (induction q arbitrary: i j)
  case Nil
  then show ?case by simp
next
  case (Cons fe q)
  have dq: "distinct (pending q)"
    using Cons.prems(1) by (cases "fe_memtable fe") simp_all
  show ?case
  proof (cases i)
    case 0
    then have fm: "fe_memtable fe = Some m" using Cons.prems(5) by simp
    then have nm: "m \<notin> set (pending q)" using Cons.prems(1) by simp
    from 0 Cons.prems(4) obtain j' where j: "j = Suc j'" by (cases j) auto
    then have "j' < length q" using Cons.prems(3) by simp
    then have "q ! j' \<in> set q" by simp
    with nm pending_mem [of "q ! j'" q m] show ?thesis by (auto simp: j)
  next
    case (Suc i')
    then have il: "i' < length q" and im: "fe_memtable (q ! i') = Some m"
      using Cons.prems(2,5) by simp_all
    show ?thesis
    proof (cases j)
      case 0
      have "m \<in> set (pending q)"
        using il im pending_mem [of "q ! i'" q m] by simp
      then have "fe_memtable fe \<noteq> Some m" using Cons.prems(1) by auto
      then show ?thesis by (simp add: 0)
    next
      case (Suc j')
      then have "j' < length q" "i' \<noteq> j'" using Cons.prems(3,4) \<open>i = Suc i'\<close> by simp_all
      from Cons.IH [OF dq il this im] show ?thesis by (simp add: Suc)
    qed
  qed
qed

lemma drain_queue:
  "next_ptr (drain_state (drain ext bnd i s)) = next_ptr s
   \<and> (\<forall>fe \<in> set (mtFlushQueue (drain_state (drain ext bnd i s))).
        fe_memtable fe = None \<or> fe \<in> set (mtFlushQueue s))"
proof (induction ext bnd i s rule: drain.induct)
  case (1 ext bnd i s)
  let ?q = "mtFlushQueue s"
  show ?case
  proof (cases "i < bnd \<and> i < length ?q \<and> ssTabInfo (?q ! i) \<noteq> None
                \<and> ApplyChanges_err ext (controller s) (registration (the (ssTabInfo (?q ! i)))) = None")
    case False
    from drain_stop [OF False] have "drain_state (drain ext bnd i s) = s" by auto
    then show ?thesis by simp
  next
    case True
    then obtain tabInfo where ti: "ssTabInfo (?q ! i) = Some tabInfo" by auto
    have ib: "i < bnd" and il: "i < length ?q" and nl: "\<not> length ?q \<le> i"
      and ac: "ApplyChanges_err ext (controller s) (registration tabInfo) = None"
      using True ti by simp_all
    show ?thesis
    proof (cases "fe_memtable (?q ! i)")
      case None
      then have "drain ext bnd i s = DrainPanic (s\<lparr>controller := controller s @ [registration tabInfo]\<rparr>)"
        using ib il ti ac by (subst drain.simps) (simp add: Let_def)
      then show ?thesis by simp
    next
      case (Some m)
      define s2 where "s2 = s\<lparr>controller := controller s @ [registration tabInfo],
                committedCalls := committedCalls s @ [m],
                mtFlushQueue := ?q[i := (?q ! i)\<lparr>fe_memtable := None\<rparr>]\<rparr>"
      have d: "drain ext bnd i s = drain ext bnd (Suc i) s2"
        unfolding s2_def using ib il ti ac Some by (rule drain_go)
      have ih: "next_ptr (drain_state (drain ext bnd (Suc i) s2)) = next_ptr s2
         \<and> (\<forall>fe \<in> set (mtFlushQueue (drain_state (drain ext bnd (Suc i) s2))).
              fe_memtable fe = None \<or> fe \<in> set (mtFlushQueue s2))"
        using "1.IH" [OF ib nl refl ti ac refl Some] by (simp add: s2_def)
      have sub: "set (mtFlushQueue s2) \<subseteq> insert ((?q ! i)\<lparr>fe_memtable := None\<rparr>) (set ?q)"
        unfolding s2_def by (simp add: set_update_subset_insert)
      have np: "next_ptr s2 = next_ptr s" by (simp add: s2_def)
      show ?thesis
        unfolding d using ih sub np by auto
    qed
  qed
qed

lemma turn_queue:
  assumes turn: "mtFlushRunLoop_turn ext p s = (st, p', s', started)"
  shows "next_ptr s' = next_ptr s"
    and "\<forall>fe \<in> set (mtFlushQueue s'). fe_memtable fe = None \<or> fe \<in> set (mtFlushQueue s)"
proof -
  note dq = drain_queue [of ext p 0 s]
  have "next_ptr s' = next_ptr s
      \<and> (\<forall>fe \<in> set (mtFlushQueue s'). fe_memtable fe = None \<or> fe \<in> set (mtFlushQueue s))"
  proof (cases "drain ext p 0 s")
    case (DrainPanic s1)
    with dq turn show ?thesis by (simp add: mtFlushRunLoop_turn_def)
  next
    case (DrainReturn s1)
    with dq turn show ?thesis by (simp add: mtFlushRunLoop_turn_def)
  next
    case (Drained j s1)
    define s2 where "s2 = (if 0 < j then s1\<lparr>mtFlushQueue := drop j (mtFlushQueue s1)\<rparr> else s1)"
    have s': "s' = s2"
      using turn Drained by (simp add: mtFlushRunLoop_turn_def s2_def Let_def split: if_splits)
    have "set (mtFlushQueue s2) \<subseteq> set (mtFlushQueue s1)"
      by (auto simp: s2_def dest: in_set_dropD)
    moreover have "next_ptr s2 = next_ptr s1" by (simp add: s2_def)
    ultimately show ?thesis
      using dq Drained unfolding s' by auto
  qed
  then show "next_ptr s' = next_ptr s"
    and "\<forall>fe \<in> set (mtFlushQueue s'). fe_memtable fe = None \<or> fe \<in> set (mtFlushQueue s)"
    by simp_all
qed

lemma step_tables:
  assumes pi: "pipeline_inv st" and ti: "tables_inv st T"
  shows "tables_inv (step ext ev st) (upload_of ev st T)"
proof -
  obtain l s where st: "st = (l, s)" by (cases st)
  let ?q = "mtFlushQueue s"
  have some: "status l = Running \<Longrightarrow> \<forall>fe \<in> set ?q. fe_memtable fe \<noteq> None"
    and len: "length (controller s) = length (committedCalls s)"
    using pi by (simp_all add: pipeline_inv_def st)
  have a: "map Some (controller s) = map (\<lambda>m. map_option registration (T m)) (committedCalls s)"
    and b: "\<forall>fe \<in> set ?q. \<forall>m. fe_memtable fe = Some m \<longrightarrow> ssTabInfo fe = T m"
    and c: "distinct (committedCalls s @ pending ?q)"
    and d: "\<forall>m \<in> set (committedCalls s @ pending ?q). m < memtable s"
    and e: "memtable s < next_ptr s"
    and f: "\<forall>m. memtable s \<le> m \<longrightarrow> T m = None"
    using ti by (simp_all add: tables_inv_def logged_def st)
  show ?thesis
  proof (cases "status l = Panicked")
    case True
    then show ?thesis
      using ti by (cases ev) (simp_all add: st upload_of_def split: sum.splits)
  next
    case np: False
    show ?thesis
    proof (cases ev)
      case (Rotate mt)
      show ?thesis
      proof (cases "mt = memtable s")
        case False
        then show ?thesis
          using np ti by (simp add: Rotate st replaceMemtable_cases upload_of_def)
      next
        case True
        have r: "step ext ev st = (l, rotated ext s)"
          using np True by (simp add: Rotate st replaceMemtable_cases)
        have u: "upload_of ev st T = T" by (simp add: Rotate upload_of_def)
        have fn: "T (memtable s) = None" using f by simp
        show ?thesis
          unfolding r u
          using a b c d e f fn
          by (auto simp: tables_inv_def logged_def rotated_def pending_append
              dest: less_trans [OF _ e])
      qed
    next
      case LoopTurn
      have u: "upload_of ev st T = T" by (simp add: LoopTurn upload_of_def)
      show ?thesis
      proof (cases "status l = Running \<and> 0 < mtFlushChan s")
        case False
        then show ?thesis
          unfolding u using np ti by (auto simp: LoopTurn st)
      next
        case True
        let ?s0 = "s\<lparr>mtFlushChan := mtFlushChan s - 1\<rparr>"
        obtain st1 p1 s1 started where
          t: "mtFlushRunLoop_turn ext (pos l) ?s0 = (st1, p1, s1, started)"
          by (cases "mtFlushRunLoop_turn ext (pos l) ?s0") auto
        have some0: "\<forall>fe \<in> set (mtFlushQueue ?s0). fe_memtable fe \<noteq> None"
          using some True by simp
        have len0: "length (controller ?s0) = length (committedCalls ?s0)"
          using len by simp
        from turn_inv(1) [OF some0 len0 t]
        have lg: "committedCalls s1 @ pending (mtFlushQueue s1) = committedCalls s @ pending ?q"
          and mt: "memtable s1 = memtable s"
          by (simp_all add: drain_post_def)
        from turn_queue [OF t]
        have np1: "next_ptr s1 = next_ptr s"
          and q1: "\<forall>fe \<in> set (mtFlushQueue s1). fe_memtable fe = None \<or> fe \<in> set ?q"
          by simp_all
        from turn_registers_prefix [OF some0 t] obtain k where
          ck: "controller s1 = controller s @ map (\<lambda>fe. registration (the (ssTabInfo fe))) (take k ?q)"
          and mk: "committedCalls s1 = committedCalls s @ map (\<lambda>fe. the (fe_memtable fe)) (take k ?q)"
          and ik: "\<forall>fe \<in> set (take k ?q). ssTabInfo fe \<noteq> None"
          by auto
        have each: "Some (registration (the (ssTabInfo fe))) = map_option registration (T (the (fe_memtable fe)))"
          if "fe \<in> set (take k ?q)" for fe
        proof -
          from that have m: "fe \<in> set ?q" by (rule in_set_takeD)
          with some0 obtain m where fm: "fe_memtable fe = Some m" by auto
          with b m have "ssTabInfo fe = T m" by simp
          moreover from ik that obtain i where "ssTabInfo fe = Some i" by auto
          ultimately have "T m = Some i" "ssTabInfo fe = Some i" by simp_all
          then show ?thesis using fm by simp
        qed
        have a1: "map Some (controller s1) = map (\<lambda>m. map_option registration (T m)) (committedCalls s1)"
          unfolding ck mk using a each by simp
        have b1: "\<forall>fe \<in> set (mtFlushQueue s1). \<forall>m. fe_memtable fe = Some m \<longrightarrow> ssTabInfo fe = T m"
          using q1 b by auto
        have res: "step ext ev st = (\<lparr>pos = p1, status = st1\<rparr>, s1)"
          using True np t by (simp add: LoopTurn st)
        show ?thesis
          unfolding res u
          using a1 b1 c d e f
          by (simp add: tables_inv_def logged_def lg mt np1)
      qed
    next
      case (Flush idx built)
      show ?thesis
      proof (cases built)
        case (Inl err)
        then show ?thesis
          using np ti by (simp add: Flush flushMemtable_def st upload_of_def)
      next
        case (Inr r)
        obtain info sz n where r: "r = (info, sz, n)" by (cases r)
        show ?thesis
        proof (cases "idx < length ?q")
          case False
          then show ?thesis
            using np a b c d e f
            by (simp add: Flush Inr r flushMemtable_def st upload_of_def tables_inv_def logged_def)
        next
          case il: True
          let ?q' = "?q[idx := (?q ! idx)\<lparr>ssTabInfo := Some info\<rparr>]"
          have res: "step ext ev st = (l, s\<lparr>mtFlushQueue := ?q', mtFlushChan := Suc (mtFlushChan s)\<rparr>)"
            using np il by (simp add: Flush Inr r flushMemtable_def st)
          have pq: "pending ?q' = pending ?q" by (rule pending_set_info)
          show ?thesis
          proof (cases "fe_memtable (?q ! idx)")
            case None
            have u: "upload_of ev st T = T"
              using np il None by (simp add: Flush Inr r upload_of_def st)
            have b1: "\<forall>fe \<in> set ?q'. \<forall>m. fe_memtable fe = Some m \<longrightarrow> ssTabInfo fe = T m"
            proof (intro ballI allI impI)
              fix fe m assume "fe \<in> set ?q'" and fm: "fe_memtable fe = Some m"
              then have "fe = (?q ! idx)\<lparr>ssTabInfo := Some info\<rparr> \<or> fe \<in> set ?q"
                using set_update_subset_insert [of ?q idx "(?q ! idx)\<lparr>ssTabInfo := Some info\<rparr>"] by auto
              with fm None b show "ssTabInfo fe = T m" by auto
            qed
            show ?thesis
              unfolding res u using a b1 c d e f
              by (simp add: tables_inv_def logged_def pq)
          next
            case (Some m)
            have u: "upload_of ev st T = T(m \<mapsto> info)"
              using np il Some by (simp add: Flush Inr r upload_of_def st)
            have "?q ! idx \<in> set ?q" using il by simp
            then have mp: "m \<in> set (pending ?q)" using Some by (rule pending_mem)
            with c have mc: "m \<notin> set (committedCalls s)" by auto
            from mp d have ml: "m < memtable s" by simp
            from c have dp: "distinct (pending ?q)" by simp
            have a1: "map Some (controller s) =
                  map (\<lambda>x. map_option registration ((T(m \<mapsto> info)) x)) (committedCalls s)"
              using a mc by (simp cong: map_cong)
            have b1: "\<forall>fe \<in> set ?q'. \<forall>x. fe_memtable fe = Some x \<longrightarrow> ssTabInfo fe = (T(m \<mapsto> info)) x"
            proof (intro ballI allI impI)
              fix fe x assume "fe \<in> set ?q'" and fm: "fe_memtable fe = Some x"
              then obtain j where j: "j < length ?q" "fe = ?q' ! j"
                by (auto simp: in_set_conv_nth)
              show "ssTabInfo fe = (T(m \<mapsto> info)) x"
              proof (cases "j = idx")
                case True
                then show ?thesis using j il fm Some by simp
              next
                case False
                then have fe: "fe = ?q ! j" using j by simp
                from pending_distinct_nth [OF dp il j(1) _ Some] False
                have "fe_memtable (?q ! j) \<noteq> Some m" by auto
                with fm fe have "x \<noteq> m" by auto
                moreover have "fe \<in> set ?q" using fe j(1) by simp
                ultimately show ?thesis using b fm by simp
              qed
            qed
            have f1: "\<forall>x. memtable s \<le> x \<longrightarrow> (T(m \<mapsto> info)) x = None"
              using f ml by auto
            show ?thesis
              unfolding res u using a1 b1 c d e f1
              by (simp add: tables_inv_def logged_def pq)
          qed
        qed
      qed
    qed
  qed
qed

lemma run_tables:
  assumes "pipeline_inv st" and "tables_inv st T"
  shows "tables_inv (run ext evs st) (uploaded ext evs st T)"
  using assms
proof (induction evs arbitrary: st T)
  case Nil
  then show ?case by simp
next
  case (Cons ev evs)
  have i1: "pipeline_inv (step ext ev st)"
    using Cons.prems(1) by (rule step_inv(1))
  have t1: "tables_inv (step ext ev st) (upload_of ev st T)"
    using Cons.prems by (rule step_tables)
  from Cons.IH [OF i1 t1] show ?case by simp
qed

text \<open>
  C3. In every execution of the pipeline from a new engine (rotations, uploads that
  complete in any order and on any entry, turns of the run loop):
  \<^item> the memtables whose \<open>Committed\<close> was called, in the order of the calls, followed by
    the memtables still in the flush queue, in queue order, are the memtables that the
    rotations enqueued, in the order of the rotations;
  \<^item> no memtable was enqueued twice;
  \<^item> the controller holds exactly the registrations of the tables uploaded for the
    memtables whose \<open>Committed\<close> was called, one for each and in the same order: its
    \<open>k\<close>-th registration is that of the table uploaded for the \<open>k\<close>-th enqueued memtable.

  So the entries are registered, each with its own table, in the order in which they
  were enqueued, and none before an earlier one, whatever the order in which the uploads
  complete.
\<close>

theorem registration_fifo:
  "committedCalls (snd (run ext evs (\<lparr>pos = 0, status = Running\<rparr>, NewShakti ext db cf)))
     @ pending (mtFlushQueue (snd (run ext evs (\<lparr>pos = 0, status = Running\<rparr>, NewShakti ext db cf))))
   = enqueued ext evs (\<lparr>pos = 0, status = Running\<rparr>, NewShakti ext db cf)
   \<and> distinct (enqueued ext evs (\<lparr>pos = 0, status = Running\<rparr>, NewShakti ext db cf))
   \<and> map Some (controller (snd (run ext evs (\<lparr>pos = 0, status = Running\<rparr>, NewShakti ext db cf))))
     = map (\<lambda>m. map_option registration
                  (uploaded ext evs (\<lparr>pos = 0, status = Running\<rparr>, NewShakti ext db cf) (\<lambda>m. None) m))
         (committedCalls (snd (run ext evs (\<lparr>pos = 0, status = Running\<rparr>, NewShakti ext db cf))))
   \<and> length (controller (snd (run ext evs (\<lparr>pos = 0, status = Running\<rparr>, NewShakti ext db cf))))
     = length (committedCalls (snd (run ext evs (\<lparr>pos = 0, status = Running\<rparr>, NewShakti ext db cf))))"
proof -
  let ?init = "(\<lparr>pos = 0, status = Running\<rparr>, NewShakti ext db cf)"
  have i: "pipeline_inv ?init"
    by (simp add: pipeline_inv_def NewShakti_def)
  have l: "logged ?init = []"
    by (simp add: logged_def NewShakti_def)
  have t: "tables_inv ?init (\<lambda>m. None)"
    by (simp add: tables_inv_def logged_def NewShakti_def)
  from run_inv [OF i, of ext evs]
  have a: "pipeline_inv (run ext evs ?init)" and b: "logged (run ext evs ?init) = logged ?init @ enqueued ext evs ?init"
    by simp_all
  from b have e: "logged (run ext evs ?init) = enqueued ext evs ?init"
    unfolding l by simp
  from run_tables [OF i t, of ext evs]
  have c: "map Some (controller (snd (run ext evs ?init)))
        = map (\<lambda>m. map_option registration (uploaded ext evs ?init (\<lambda>m. None) m))
            (committedCalls (snd (run ext evs ?init)))"
    and d: "distinct (logged (run ext evs ?init))"
    by (simp_all add: tables_inv_def)
  from a have len: "length (controller (snd (run ext evs ?init))) = length (committedCalls (snd (run ext evs ?init)))"
    by (simp add: pipeline_inv_def)
  from e have e': "committedCalls (snd (run ext evs ?init)) @ pending (mtFlushQueue (snd (run ext evs ?init)))
      = enqueued ext evs ?init"
    by (simp add: logged_def)
  from d e have d': "distinct (enqueued ext evs ?init)" by simp
  from e' d' c len show ?thesis by (intro conjI)
qed

theorem registration_fifo_witness:
  "committedCalls (snd (run toy_ext
      [Rotate 0, Rotate 1, Rotate 2, LoopTurn, LoopTurn, Flush 1 (Inr (info1, 200, 2)), LoopTurn,
       Flush 0 (Inr (info0, 100, 1)), LoopTurn]
      (\<lparr>pos = 0, status = Running\<rparr>, NewShakti toy_ext 1 toy_conf))) = [0, 1]
   \<and> pending (mtFlushQueue (snd (run toy_ext
      [Rotate 0, Rotate 1, Rotate 2, LoopTurn, LoopTurn, Flush 1 (Inr (info1, 200, 2)), LoopTurn,
       Flush 0 (Inr (info0, 100, 1)), LoopTurn]
      (\<lparr>pos = 0, status = Running\<rparr>, NewShakti toy_ext 1 toy_conf)))) = [2]
   \<and> enqueued toy_ext
      [Rotate 0, Rotate 1, Rotate 2, LoopTurn, LoopTurn, Flush 1 (Inr (info1, 200, 2)), LoopTurn,
       Flush 0 (Inr (info0, 100, 1)), LoopTurn]
      (\<lparr>pos = 0, status = Running\<rparr>, NewShakti toy_ext 1 toy_conf) = [0, 1, 2]
   \<and> uploaded toy_ext
      [Rotate 0, Rotate 1, Rotate 2, LoopTurn, LoopTurn, Flush 1 (Inr (info1, 200, 2)), LoopTurn,
       Flush 0 (Inr (info0, 100, 1)), LoopTurn]
      (\<lparr>pos = 0, status = Running\<rparr>, NewShakti toy_ext 1 toy_conf) (\<lambda>m. None) 0 = Some info0
   \<and> uploaded toy_ext
      [Rotate 0, Rotate 1, Rotate 2, LoopTurn, LoopTurn, Flush 1 (Inr (info1, 200, 2)), LoopTurn,
       Flush 0 (Inr (info0, 100, 1)), LoopTurn]
      (\<lparr>pos = 0, status = Running\<rparr>, NewShakti toy_ext 1 toy_conf) (\<lambda>m. None) 1 = Some info1
   \<and> controller (snd (run toy_ext
      [Rotate 0, Rotate 1, Rotate 2, LoopTurn, LoopTurn, Flush 1 (Inr (info1, 200, 2)), LoopTurn,
       Flush 0 (Inr (info0, 100, 1)), LoopTurn]
      (\<lparr>pos = 0, status = Running\<rparr>, NewShakti toy_ext 1 toy_conf))) = [registration info0, registration info1]"
proof -
  let ?evs = "[Rotate 0, Rotate 1, Rotate 2, LoopTurn, LoopTurn, Flush 1 (Inr (info1, 200, 2)), LoopTurn,
       Flush 0 (Inr (info0, 100, 1)), LoopTurn]"
  let ?init = "(\<lparr>pos = 0, status = Running\<rparr>, NewShakti toy_ext 1 toy_conf)"
  have c: "committedCalls (snd (run toy_ext ?evs ?init)) = [0, 1]"
    by (simp add: NewShakti_def replaceMemtable_def replaceMemtable0_def updateIterators_def
        flushMemtable_def mtFlushRunLoop_turn_def drain.simps toy_ext_def Let_def)
  have p: "pending (mtFlushQueue (snd (run toy_ext ?evs ?init))) = [2]"
    by (simp add: NewShakti_def replaceMemtable_def replaceMemtable0_def updateIterators_def
        flushMemtable_def mtFlushRunLoop_turn_def drain.simps toy_ext_def Let_def)
  have u0: "uploaded toy_ext ?evs ?init (\<lambda>m. None) 0 = Some info0"
    by (simp add: NewShakti_def replaceMemtable_def replaceMemtable0_def updateIterators_def
        flushMemtable_def mtFlushRunLoop_turn_def drain.simps toy_ext_def Let_def upload_of_def)
  have u1: "uploaded toy_ext ?evs ?init (\<lambda>m. None) 1 = Some info1"
    by (simp add: NewShakti_def replaceMemtable_def replaceMemtable0_def updateIterators_def
        flushMemtable_def mtFlushRunLoop_turn_def drain.simps toy_ext_def Let_def upload_of_def)
  note fifo = registration_fifo [of toy_ext ?evs 1 toy_conf]
  have e0: "committedCalls (snd (run toy_ext ?evs ?init)) @ pending (mtFlushQueue (snd (run toy_ext ?evs ?init)))
      = enqueued toy_ext ?evs ?init"
    by (rule conjunct1 [OF fifo])
  have k0: "map Some (controller (snd (run toy_ext ?evs ?init)))
      = map (\<lambda>m. map_option registration (uploaded toy_ext ?evs ?init (\<lambda>m. None) m))
          (committedCalls (snd (run toy_ext ?evs ?init)))"
    by (rule conjunct1 [OF conjunct2 [OF conjunct2 [OF fifo]]])
  have e: "enqueued toy_ext ?evs ?init = [0, 1, 2]"
    by (rule trans [OF e0 [unfolded c p, symmetric]]) simp
  have k: "map Some (controller (snd (run toy_ext ?evs ?init))) = [Some (registration info0), Some (registration info1)]"
    by (rule trans [OF k0 [unfolded c]]) (simp only: list.map u0 u1 option.map)
  from k have k': "controller (snd (run toy_ext ?evs ?init)) = [registration info0, registration info1]"
    by (auto simp: map_eq_Cons_conv)
  from c p e u0 u1 k' show ?thesis by (intro conjI)
qed

text \<open>
  The order is kept also where the loop does not go on. With two uploads under way, when
  the second one completes first, the next turn registers nothing (the head has no
  \<open>ssTabInfo\<close>) and then indexes the queue at \<open>pos\<close>, which is its length: the loop
  panics, and nothing is registered, in or out of order.
\<close>

lemma second_upload_first_panics:
  "status (fst (run toy_ext [Rotate 0, Rotate 1, LoopTurn, LoopTurn, Flush 1 (Inr (info0, 100, 1)), LoopTurn]
      (\<lparr>pos = 0, status = Running\<rparr>, NewShakti toy_ext 1 toy_conf))) = Panicked
   \<and> controller (snd (run toy_ext [Rotate 0, Rotate 1, LoopTurn, LoopTurn, Flush 1 (Inr (info0, 100, 1)), LoopTurn]
      (\<lparr>pos = 0, status = Running\<rparr>, NewShakti toy_ext 1 toy_conf))) = []"
  by (simp add: NewShakti_def replaceMemtable_def replaceMemtable0_def updateIterators_def
      flushMemtable_def mtFlushRunLoop_turn_def drain.simps toy_ext_def Let_def)

subsection \<open>Recovery, rotation under live iterators, and the sources of an iterator: C7, C6, C5\<close>


lemma split_low_byte:
  "(ucast (ucast w :: 8 word) :: 64 word) OR push_bit 8 (drop_bit 8 w) = w"
proof (rule bit_word_eqI)
  fix n assume "n < LENGTH(64)"
  then show "bit (ucast (ucast w :: 8 word) OR push_bit 8 (drop_bit 8 w) :: 64 word) n = bit w n"
    by (cases "n < 8") (simp_all add: bit_simps)
qed

lemma split_byte_at:
  "(ucast (ucast (drop_bit k v) :: 8 word) :: 64 word) OR push_bit 8 (drop_bit (8 + k) v) = drop_bit k v"
  using split_low_byte [of "drop_bit k v"] by (simp add: add.commute)

lemma top_byte: "(ucast (ucast (drop_bit 56 v) :: 8 word) :: 64 word) = drop_bit 56 (v :: 64 word)"
  by (rule bit_word_eqI) (auto simp: bit_simps dest: bit_imp_le_length)

lemma u64_of_le_le_u64: "u64_of_le (le_u64 v) = v"
proof -
  have "u64_of_le (le_u64 v) =
      ucast (ucast (drop_bit 0 v) :: 8 word) OR push_bit 8 (
      ucast (ucast (drop_bit 8 v) :: 8 word) OR push_bit 8 (
      ucast (ucast (drop_bit 16 v) :: 8 word) OR push_bit 8 (
      ucast (ucast (drop_bit 24 v) :: 8 word) OR push_bit 8 (
      ucast (ucast (drop_bit 32 v) :: 8 word) OR push_bit 8 (
      ucast (ucast (drop_bit 40 v) :: 8 word) OR push_bit 8 (
      ucast (ucast (drop_bit 48 v) :: 8 word) OR push_bit 8 (
      ucast (ucast (drop_bit 56 v) :: 8 word))))))))"
    by (simp add: le_u64_def)
  also have "\<dots> = drop_bit 0 v"
    unfolding top_byte
    using split_byte_at [of 48 v] split_byte_at [of 40 v] split_byte_at [of 32 v]
      split_byte_at [of 24 v] split_byte_at [of 16 v] split_byte_at [of 8 v] split_byte_at [of 0 v]
    by simp
  finally show ?thesis by simp
qed

lemma Read_Append_LE: "ReadUint64FromBufferLE (AppendUint64ToBufferLE None v) 0 = Some (v, 8)"
  by (simp add: ReadUint64FromBufferLE_def AppendUint64ToBufferLE_def bytes_of_def
      length_le_u64 u64_of_le_le_u64)

lemma NewIterator_frame:
  assumes "NewIterator ext ks ke s = Some (r, s1)"
  shows "lastCommittedBatchSequences s1 = lastCommittedBatchSequences s"
    and "memtables s1 = memtables s"
  using assms
  by (auto simp: NewIterator_def Let_def split: sum.splits option.splits prod.splits)

lemma Current_frame:
  "lastCommittedBatchSequences (snd (Current ext h s)) = lastCommittedBatchSequences s"
  "memtables (snd (Current ext h s)) = memtables s"
  by (simp_all add: Current_def Let_def split: option.splits)

text \<open>
  C7. Let \<open>batch\<close> be a batch of processor \<open>p\<close> whose dedup row was written (the insertion
  is not disabled), and let that row be what the iterator over the dedup range of \<open>p\<close>
  stands on (the row is visible in storage). Then \<open>LoadLastBatchSequence\<close> returns no
  error, reads the current entry of the iterator once, and the dedup map afterwards is
  the map before with the batch's sequence number for \<open>p\<close>: the little-endian value
  decodes to the number that was encoded. The memtables are not changed.
\<close>

theorem LoadLastBatchSequence_restores:
  assumes en: "\<not> DisableBatchSequenceInsertion (conf s)"
    and it: "NewIterator ext (createDedupKey ext s (ProcessorID batch))
               (IncrementBytesBigEndian ext (createDedupKey ext s (ProcessorID batch))) s = Some (Inr h, s1)"
    and valid: "IsValid ext h s1 = Inr True"
    and cur: "fst (Current ext h s1) = last (Batch (putDedupEntry ext s batch))"
  shows "\<exists>s2. LoadLastBatchSequence ext (ProcessorID batch) s = Some (None, s2)
           \<and> lastCommittedBatchSequences s2 =
               (lastCommittedBatchSequences s)(ProcessorID batch := Some (SequenceNum batch))
           \<and> memtables s2 = memtables s"
proof -
  obtain kv s2 where c: "Current ext h s1 = (kv, s2)" by (cases "Current ext h s1")
  have "kv = \<lparr>Key = createDedupKey ext s (ProcessorID batch),
               Value = AppendUint64ToBufferLE None (SequenceNum batch)\<rparr>"
    using cur c en by (simp add: putDedupEntry_def Let_def)
  then have v: "ReadUint64FromBufferLE (Value kv) 0 = Some (SequenceNum batch, 8)"
    by (simp add: Read_Append_LE)
  have f: "lastCommittedBatchSequences s2 = lastCommittedBatchSequences s" "memtables s2 = memtables s"
    using Current_frame [of ext h s1] NewIterator_frame [OF it] c by simp_all
  have "LoadLastBatchSequence ext (ProcessorID batch) s =
          Some (None, s2\<lparr>lastCommittedBatchSequences :=
                          (lastCommittedBatchSequences s2)(ProcessorID batch := Some (SequenceNum batch))\<rparr>)"
    by (simp add: LoadLastBatchSequence_def Let_def it valid c v)
  then show ?thesis
    using f by simp
qed

theorem LoadLastBatchSequence_restores_witness:
  "lastCommittedBatchSequences recovered_engine 7 = None
   \<and> (\<exists>s2. LoadLastBatchSequence toy_ext 7 recovered_engine = Some (None, s2)
          \<and> lastCommittedBatchSequences s2 7 = Some 10)"
proof -
  let ?b = "NewWriteBatch 7 10 [kv_a]"
  let ?k = "createDedupKey toy_ext recovered_engine (ProcessorID ?b)"
  let ?re = "IncrementBytesBigEndian toy_ext ?k"
  let ?si = "\<lparr>rangeStart = ?k, rangeEnd = ?re, lastKey = None,
               mi = \<lparr>iters = [MemtableIterator (Some 0) ?k ?re]\<rparr>\<rparr>"
  let ?s1 = "recovered_engine\<lparr>iterators := [(1, ?si)], next_ptr := 2\<rparr>"
  have f: "memtable recovered_engine = 0" "next_ptr recovered_engine = 1" "mtFlushQueue recovered_engine = []"
    "iterators recovered_engine = []" "conf recovered_engine = toy_conf"
    "lastCommittedBatchSequences recovered_engine = (\<lambda>p. None)"
    by (simp_all add: recovered_engine_def toy_engine_fields)
  have k: "createDedupKey toy_ext recovered_engine p = createDedupKey toy_ext toy_engine p" for p
    by (simp add: createDedupKey_def recovered_engine_def)
  have pd: "putDedupEntry toy_ext recovered_engine ?b = putDedupEntry toy_ext toy_engine ?b"
    by (simp add: putDedupEntry_def k f toy_engine_fields)
  have h1: "\<not> DisableBatchSequenceInsertion (conf recovered_engine)"
    by (simp add: f toy_conf_def)
  have h2: "NewIterator toy_ext ?k ?re recovered_engine = Some (Inr 1, ?s1)"
    by (simp add: NewIterator_def set_at_def newShaktiIterator_def f toy_ext_fields)
  have m: "memtables recovered_engine 0 = \<lparr>capacity = 64, entries = Batch (putDedupEntry toy_ext toy_engine ?b)\<rparr>"
    by (simp add: recovered_engine_def)
  have row: "Batch (putDedupEntry toy_ext toy_engine ?b) =
              [kv_a, \<lparr>Key = ?k, Value = AppendUint64ToBufferLE None 10\<rparr>]"
    by (simp add: putDedupEntry_def NewWriteBatch_def toy_engine_fields toy_conf_def k)
  have fnd: "toy_find (memtables ?s1) [MemtableIterator (Some 0) ?k ?re]
               = Some \<lparr>Key = ?k, Value = AppendUint64ToBufferLE None 10\<rparr>"
    by (simp add: m row)
  have h3: "IsValid toy_ext 1 ?s1 = Inr True"
    using fnd by (simp add: IsValid_def toy_ext_fields)
  have h4: "fst (Current toy_ext 1 ?s1) = last (Batch (putDedupEntry toy_ext recovered_engine ?b))"
    using fnd by (simp add: Current_def toy_ext_fields pd row Let_def)
  from LoadLastBatchSequence_restores [OF h1 h2 h3 h4] obtain s2 where
    "LoadLastBatchSequence toy_ext (ProcessorID ?b) recovered_engine = Some (None, s2)"
    "lastCommittedBatchSequences s2 =
       (lastCommittedBatchSequences recovered_engine)(ProcessorID ?b := Some (SequenceNum ?b))"
    by blast
  then have "LoadLastBatchSequence toy_ext 7 recovered_engine = Some (None, s2)
          \<and> lastCommittedBatchSequences s2 7 = Some 10"
    by (simp add: NewWriteBatch_def)
  then show ?thesis
    by (auto simp: f)
qed

lemma updateIterators_loop_map:
  "snd (updateIterators_loop ext mt its) =
     map (\<lambda>(p, it). (p, it\<lparr>mi := (mi it)\<lparr>iters :=
            MemtableIterator (Some mt)
              (if lastKey it \<noteq> None then IncrementBytesBigEndian ext (lastKey it) else rangeStart it)
              (rangeEnd it) # iters (mi it)\<rparr>\<rparr>)) its"
  by (induction its)
    (auto simp: getRange_def addNewMemtableIterator_def PrependIterator_def split: prod.splits)

text \<open>
  C6. A rotation (\<open>replaceMemtable0\<close> called with the active memtable) returns no
  error, installs the fresh memtable, and leaves every registered iterator with a new
  first source: the iterator over the fresh memtable, from the increment of its last
  delivered key if it has one and from its own range start otherwise, to its own range
  end. Its other sources follow unchanged.
\<close>

theorem rotation_splices_iterators:
  "\<exists>s'. replaceMemtable0 ext (memtable s) s = (None, s')
     \<and> memtable s' = next_ptr s
     \<and> iterators s' =
         map (\<lambda>(p, it). (p, it\<lparr>mi := (mi it)\<lparr>iters :=
                MemtableIterator (Some (next_ptr s))
                  (if lastKey it \<noteq> None then IncrementBytesBigEndian ext (lastKey it) else rangeStart it)
                  (rangeEnd it) # iters (mi it)\<rparr>\<rparr>)) (iterators s)"
  using replaceMemtable0_active [of ext s] updateIterators_loop_map [of ext "next_ptr s" "iterators s"]
  by (simp add: rotated_def)

theorem rotation_splices_iterators_witness:
  "\<exists>s'. replaceMemtable0 toy_ext (memtable reading_engine) reading_engine = (None, s')
     \<and> memtable s' = 7
     \<and> map (\<lambda>(p, it). (p, iters (mi it))) (iterators s') =
         [(5, [MemtableIterator (Some 7) (Some [97]) (Some [122]),
               MemtableIterator (Some 0) (Some [97]) (Some [122])]),
          (6, [MemtableIterator (Some 7) (Some [99]) (Some [122]),
               MemtableIterator (Some 0) (Some [97]) (Some [122])])]"
proof -
  from rotation_splices_iterators [of toy_ext reading_engine] obtain s' where
    a: "replaceMemtable0 toy_ext (memtable reading_engine) reading_engine = (None, s')"
    and b: "memtable s' = next_ptr reading_engine"
    and c: "iterators s' =
         map (\<lambda>(p, it). (p, it\<lparr>mi := (mi it)\<lparr>iters :=
                MemtableIterator (Some (next_ptr reading_engine))
                  (if lastKey it \<noteq> None then IncrementBytesBigEndian toy_ext (lastKey it) else rangeStart it)
                  (rangeEnd it) # iters (mi it)\<rparr>\<rparr>)) (iterators reading_engine)"
    by blast
  have m: "memtable s' = 7"
    using b by (simp add: reading_engine_def)
  have i: "map (\<lambda>(p, it). (p, iters (mi it))) (iterators s') =
         [(5, [MemtableIterator (Some 7) (Some [97]) (Some [122]),
               MemtableIterator (Some 0) (Some [97]) (Some [122])]),
          (6, [MemtableIterator (Some 7) (Some [99]) (Some [122]),
               MemtableIterator (Some 0) (Some [97]) (Some [122])])]"
    unfolding c by (simp add: reading_engine_def it_fresh_def it_read_def toy_ext_fields toy_Increment_def)
  show ?thesis
    by (rule exI [of _ s']) (simp only: a m i)
qed

lemma set_at_Some:
  "set_at xs i x = Some ys \<Longrightarrow> i < length xs \<and> ys = xs[i := x]"
  by (simp add: set_at_def split: if_splits)

lemma queueIterators_slots:
  assumes "queueIterators ks ke fes p its = Some (its', p')"
  shows "p' = p + length fes \<and> length its' = length its \<and> (\<forall>j<p. its' ! j = its ! j)"
  using assms
proof (induction fes arbitrary: p its)
  case Nil
  then show ?case by simp
next
  case (Cons fe fes)
  from Cons.prems obtain its1 where
    s: "set_at its p (MemtableIterator (fe_memtable fe) ks ke) = Some its1"
    and r: "queueIterators ks ke fes (Suc p) its1 = Some (its', p')"
    by (auto split: option.splits)
  from set_at_Some [OF s] have i1: "its1 = its[p := MemtableIterator (fe_memtable fe) ks ke]"
    by simp
  from Cons.IH [OF r] have "p' = Suc p + length fes" "length its' = length its1"
    "\<forall>j<Suc p. its' ! j = its1 ! j" by simp_all
  then show ?case by (simp add: i1)
qed

lemma tableIterators_slots:
  assumes "tableIterators ext ks ke ids p its = Some (Inr its')"
  shows "length its' = length its \<and> (\<forall>j<p. its' ! j = its ! j)
       \<and> (\<forall>i<length ids. length (ids ! i) \<noteq> 1 \<longrightarrow>
             (\<exists>snap. its' ! (p + i) = ChainingIterator snap
                \<and> length snap = length its \<and> (\<forall>j<p. snap ! j = its ! j)))"
  using assms
proof (induction ids arbitrary: p its)
  case Nil
  then show ?case by simp
next
  case (Cons g ids)
  show ?case
  proof (cases "length g = 1")
    case True
    then obtain t where g: "g = [t]" by (cases g) auto
    from Cons.prems obtain its1 where
      s: "set_at its p (LazySSTableIterator t ks ke) = Some its1"
      and r: "tableIterators ext ks ke ids (Suc p) its1 = Some (Inr its')"
      by (auto simp: g NewLazySSTableIterator_def split: option.splits sum.splits)
    from set_at_Some [OF s] have i1: "its1 = its[p := LazySSTableIterator t ks ke]" by simp
    from Cons.IH [OF r] have ih: "length its' = length its1" "\<forall>j<Suc p. its' ! j = its1 ! j"
      "\<forall>i<length ids. length (ids ! i) \<noteq> 1 \<longrightarrow>
             (\<exists>snap. its' ! (Suc p + i) = ChainingIterator snap
                \<and> length snap = length its1 \<and> (\<forall>j<Suc p. snap ! j = its1 ! j))"
      by simp_all
    have a: "length its' = length its" using ih(1) by (simp add: i1)
    have b: "\<forall>j<p. its' ! j = its ! j" using ih(2) by (simp add: i1)
    have c: "\<exists>snap. its' ! (p + i) = ChainingIterator snap
                \<and> length snap = length its \<and> (\<forall>j<p. snap ! j = its ! j)"
      if "i < length (g # ids)" "length ((g # ids) ! i) \<noteq> 1" for i
    proof (cases i)
      case 0
      with that True show ?thesis by simp
    next
      case (Suc i')
      with that have "i' < length ids" "length (ids ! i') \<noteq> 1" by simp_all
      with ih(3) obtain snap where "its' ! (Suc p + i') = ChainingIterator snap"
        "length snap = length its1" "\<forall>j<Suc p. snap ! j = its1 ! j" by blast
      then show ?thesis by (auto simp: Suc i1)
    qed
    from a b c show ?thesis by blast
  next
    case False
    from Cons.prems False obtain its1 where
      s: "set_at its p (ChainingIterator its) = Some its1"
      and r: "tableIterators ext ks ke ids (Suc p) its1 = Some (Inr its')"
      by (cases g rule: list.exhaust [case_product list.exhaust])
        (auto split: option.splits sum.splits list.splits)
    from set_at_Some [OF s] have pl: "p < length its" and i1: "its1 = its[p := ChainingIterator its]"
      by simp_all
    from Cons.IH [OF r] have ih: "length its' = length its1" "\<forall>j<Suc p. its' ! j = its1 ! j"
      "\<forall>i<length ids. length (ids ! i) \<noteq> 1 \<longrightarrow>
             (\<exists>snap. its' ! (Suc p + i) = ChainingIterator snap
                \<and> length snap = length its1 \<and> (\<forall>j<Suc p. snap ! j = its1 ! j))"
      by simp_all
    have a: "length its' = length its" using ih(1) by (simp add: i1)
    have b: "\<forall>j<p. its' ! j = its ! j" using ih(2) by (simp add: i1)
    have c: "\<exists>snap. its' ! (p + i) = ChainingIterator snap
                \<and> length snap = length its \<and> (\<forall>j<p. snap ! j = its ! j)"
      if "i < length (g # ids)" "length ((g # ids) ! i) \<noteq> 1" for i
    proof (cases i)
      case 0
      have "its' ! p = its1 ! p" using ih(2) by simp
      then have "its' ! p = ChainingIterator its" using pl by (simp add: i1)
      then show ?thesis by (simp add: 0)
    next
      case (Suc i')
      with that have "i' < length ids" "length (ids ! i') \<noteq> 1" by simp_all
      with ih(3) obtain snap where "its' ! (Suc p + i') = ChainingIterator snap"
        "length snap = length its1" "\<forall>j<Suc p. snap ! j = its1 ! j" by blast
      then show ?thesis by (auto simp: Suc i1)
    qed
    from a b c show ?thesis by blast
  qed
qed


text \<open>
  \<open>NewIterator\<close> on an engine with an empty flush queue whose controller returns one
  group of two table ids: the handle it registers.
\<close>

lemma NewIterator_two_tables:
  assumes ids: "GetTableIDsForRange ext (controller s) ks ke 10000 = Inr [[id1, id2]]"
    and q: "mtFlushQueue s = []"
    and l1: "NewLazySSTableIterator_err ext id1 ks ke = None"
    and l2: "NewLazySSTableIterator_err ext id2 ks ke = None"
    and m: "NewMergingIterator_err ext
              [MemtableIterator (Some (memtable s)) ks ke,
               ChainingIterator [MemtableIterator (Some (memtable s)) ks ke, NilIterator]] = None"
  shows "NewIterator ext ks ke s =
           Some (Inr (next_ptr s),
                 s\<lparr>iterators := iterators s @
                     [(next_ptr s,
                       \<lparr>rangeStart = ks, rangeEnd = ke, lastKey = None,
                        mi = \<lparr>iters = [MemtableIterator (Some (memtable s)) ks ke,
                                       ChainingIterator [MemtableIterator (Some (memtable s)) ks ke,
                                                         NilIterator]]\<rparr>\<rparr>)],
                   next_ptr := Suc (next_ptr s)\<rparr>)"
  using assms
  by (simp add: NewIterator_def set_at_def NewLazySSTableIterator_def newShaktiIterator_def
      numeral_2_eq_2)

text \<open>
  C5. The claim: for a group of more than one table id, the source at the group's slot is
  a chaining iterator over the lazy iterators of the group. The code passes \<open>iters\<close>,
  the list of sources it is filling, to \<open>NewChainingIterator\<close>. For every handle that
  \<open>NewIterator\<close> returns and every group of more than one id, the source at the group's
  slot (after the active memtable and the memtables of the flush queue) is a chaining
  iterator over a list that begins with the iterator of the active memtable: it is not
  the chaining iterator over the group's lazy iterators.
\<close>

theorem NewIterator_chain_over_source_list:
  assumes ni: "NewIterator ext ks ke s = Some (Inr h, s')"
    and ids: "GetTableIDsForRange ext (controller s) ks ke 10000 = Inr ids"
    and i: "i < length ids"
    and many: "1 < length (ids ! i)"
  shows "\<exists>snap. iters (mi (snd (last (iterators s')))) ! (1 + length (mtFlushQueue s) + i)
                  = ChainingIterator snap
           \<and> snap ! 0 = MemtableIterator (Some (memtable s)) ks ke
           \<and> ChainingIterator snap
               \<noteq> ChainingIterator (map (\<lambda>t. LazySSTableIterator t ks ke) (ids ! i))"
proof -
  let ?n = "length ids + 1 + length (mtFlushQueue s)"
  let ?m = "MemtableIterator (Some (memtable s)) ks ke"
  from ni ids obtain its1 its2 p its3 si where
    s1: "set_at (replicate ?n NilIterator) 0 ?m = Some its1"
    and s2: "queueIterators ks ke (rev (mtFlushQueue s)) 1 its1 = Some (its2, p)"
    and s3: "tableIterators ext ks ke ids p its2 = Some (Inr its3)"
    and s4: "newShaktiIterator ext ks ke its3 = Inr si"
    and s': "s' = s\<lparr>iterators := iterators s @ [(next_ptr s, si)], next_ptr := Suc (next_ptr s)\<rparr>"
    by (auto simp: NewIterator_def Let_def split: option.splits sum.splits prod.splits)
  from set_at_Some [OF s1] have i1: "its1 ! 0 = ?m" by simp
  from queueIterators_slots [OF s2] have p: "p = 1 + length (mtFlushQueue s)"
    and i2: "its2 ! 0 = its1 ! 0" by simp_all
  from tableIterators_slots [OF s3] i many obtain snap where
    c: "its3 ! (p + i) = ChainingIterator snap" and z: "\<forall>j<p. snap ! j = its2 ! j"
    by fastforce
  have si: "iters (mi si) = its3"
    using s4 by (auto simp: newShaktiIterator_def split: option.splits)
  have a: "iters (mi (snd (last (iterators s')))) ! (1 + length (mtFlushQueue s) + i) = ChainingIterator snap"
    using c by (simp add: s' si p)
  have b: "snap ! 0 = ?m"
    using z i1 i2 by (simp add: p)
  have "map (\<lambda>t. LazySSTableIterator t ks ke) (ids ! i) ! 0 = LazySSTableIterator (ids ! i ! 0) ks ke"
    using many by (cases "ids ! i") simp_all
  with b have d: "snap \<noteq> map (\<lambda>t. LazySSTableIterator t ks ke) (ids ! i)"
    by auto
  from a b d show ?thesis by simp
qed

theorem NewIterator_chain_over_source_list_witness:
  "NewIterator two_table_ext (Some [97]) (Some [122]) toy_engine =
     Some (Inr 1,
           toy_engine\<lparr>iterators :=
               [(1, \<lparr>rangeStart = Some [97], rangeEnd = Some [122], lastKey = None,
                     mi = \<lparr>iters = [MemtableIterator (Some 0) (Some [97]) (Some [122]),
                                    ChainingIterator [MemtableIterator (Some 0) (Some [97]) (Some [122]),
                                                      NilIterator]]\<rparr>\<rparr>)],
             next_ptr := 2\<rparr>)
   \<and> (\<exists>snap. [MemtableIterator (Some 0) (Some [97]) (Some [122]),
                ChainingIterator [MemtableIterator (Some 0) (Some [97]) (Some [122]), NilIterator]] ! 1
                = ChainingIterator snap
          \<and> snap ! 0 = MemtableIterator (Some 0) (Some [97]) (Some [122])
          \<and> ChainingIterator snap
              \<noteq> ChainingIterator [LazySSTableIterator (Some [1]) (Some [97]) (Some [122]),
                                   LazySSTableIterator (Some [2]) (Some [97]) (Some [122])])"
proof -
  let ?its = "[MemtableIterator (Some 0) (Some [97]) (Some [122]),
               ChainingIterator [MemtableIterator (Some 0) (Some [97]) (Some [122]), NilIterator]]"
  let ?s' = "toy_engine\<lparr>iterators :=
               [(1, \<lparr>rangeStart = Some [97], rangeEnd = Some [122], lastKey = None,
                     mi = \<lparr>iters = ?its\<rparr>\<rparr>)],
             next_ptr := 2\<rparr>"
  have ni: "NewIterator two_table_ext (Some [97]) (Some [122]) toy_engine = Some (Inr 1, ?s')"
    using NewIterator_two_tables [of two_table_ext toy_engine "Some [97]" "Some [122]" "Some [1]" "Some [2]"]
    by (simp add: two_table_ext_fields toy_engine_fields)
  have ids: "GetTableIDsForRange two_table_ext (controller toy_engine) (Some [97]) (Some [122]) 10000
               = Inr [[Some [1], Some [2]]]"
    by (simp add: two_table_ext_fields)
  have i: "0 < length [[Some [1 :: 8 word], Some [2]]]" by simp
  have many: "1 < length ([[Some [1 :: 8 word], Some [2]]] ! 0)" by simp
  from NewIterator_chain_over_source_list [OF ni ids i many] obtain snap where
    "iters (mi (snd (last (iterators ?s')))) ! (1 + length (mtFlushQueue toy_engine) + 0) = ChainingIterator snap"
    "snap ! 0 = MemtableIterator (Some (memtable toy_engine)) (Some [97]) (Some [122])"
    "ChainingIterator snap
       \<noteq> ChainingIterator (map (\<lambda>t. LazySSTableIterator t (Some [97]) (Some [122])) ([[Some [1], Some [2]]] ! 0))"
    by blast
  then have "?its ! 1 = ChainingIterator snap
          \<and> snap ! 0 = MemtableIterator (Some 0) (Some [97]) (Some [122])
          \<and> ChainingIterator snap
              \<noteq> ChainingIterator [LazySSTableIterator (Some [1]) (Some [97]) (Some [122]),
                                   LazySSTableIterator (Some [2]) (Some [97]) (Some [122])]"
    by (simp add: toy_engine_fields)
  then show ?thesis
    using ni by blast
qed

end
